theory Spec2Isabelle
  imports Complex_Main "HOL-Library.Char_ord" "HOL-Library.List_Lexorder"
begin

section \<open>JavaScript strings\<close>

text \<open>
  Statement text is a list of characters. The SQL dialect, every keyword and every
  pattern of the services are ASCII, and the model is exact on ASCII text: the
  white-space class, the word class and the case mapping below are the ASCII part of
  the JavaScript ones. Characters above 127 are carried along unchanged, belong to
  no class and have no case mapping.
\<close>

definition isSpace :: "char \<Rightarrow> bool" where
  "isSpace c = (c \<in> set [CHR 0x09, CHR 0x0A, CHR 0x0B, CHR 0x0C, CHR 0x0D, CHR '' ''])"

definition isDigit :: "char \<Rightarrow> bool" where
  "isDigit c = (let n = (of_char c :: nat) in 48 \<le> n \<and> n \<le> 57)"

definition isWord :: "char \<Rightarrow> bool" where
  "isWord c = (let n = (of_char c :: nat) in
     (97 \<le> n \<and> n \<le> 122) \<or> (65 \<le> n \<and> n \<le> 90) \<or> (48 \<le> n \<and> n \<le> 57) \<or> n = 95)"

text \<open>\<^verbatim>\<open>toUpperCase\<close> on one character: a lower-case letter loses bit 5.\<close>

fun toUpperChar :: "char \<Rightarrow> char" where
  "toUpperChar (Char b0 b1 b2 b3 b4 b5 b6 b7) =
     (let n = (of_char (Char b0 b1 b2 b3 b4 b5 b6 b7) :: nat) in
      if 97 \<le> n \<and> n \<le> 122 then Char b0 b1 b2 b3 b4 False b6 b7
      else Char b0 b1 b2 b3 b4 b5 b6 b7)"

definition toUpperCase :: "string \<Rightarrow> string" where
  "toUpperCase s = map toUpperChar s"

definition trim :: "string \<Rightarrow> string" where
  "trim s = rev (dropWhile isSpace (rev (dropWhile isSpace s)))"

definition startsWith :: "string \<Rightarrow> string \<Rightarrow> bool" where
  "startsWith s p = (take (length p) s = p)"

text \<open>\<^verbatim>\<open>s.includes(p)\<close>: \<open>p\<close> occurs in \<open>s\<close> as a contiguous piece.\<close>

fun str_includes :: "string \<Rightarrow> string \<Rightarrow> bool" where
  "str_includes [] p = (p = [])"
| "str_includes (x # xs) p = (startsWith (x # xs) p \<or> str_includes xs p)"

text \<open>\<^verbatim>\<open>s.split(',')\<close>: the pieces between the separators, empty ones included.\<close>

fun split_on :: "char \<Rightarrow> string \<Rightarrow> string list" where
  "split_on d [] = [[]]"
| "split_on d (x # xs) =
     (if x = d then [] # split_on d xs
      else (case split_on d xs of [] \<Rightarrow> [[x]] | p # ps \<Rightarrow> (x # p) # ps))"

text \<open>\<^verbatim>\<open>a.join(',')\<close>.\<close>

fun join :: "char \<Rightarrow> string list \<Rightarrow> string" where
  "join d [] = []"
| "join d [p] = p"
| "join d (p # q # ps) = p @ d # join d (q # ps)"

section \<open>Regular expressions\<close>

text \<open>
  The patterns of the services use literal text, the classes \<^verbatim>\<open>\s \w \d [\s\S] [^']\<close>,
  greedy and lazy repetition of one class, optional groups, alternation, capture
  groups, \<^verbatim>\<open>$\<close> and \<^verbatim>\<open>\b\<close>. The matcher is the backtracking matcher of the
  language: a pattern is run against a position with a continuation for the rest of
  the pattern, and the first alternative whose continuation succeeds wins.
\<close>

datatype atom = AChar char | ASpace | AWord | ADigit | AAny | ANot char

datatype re =
    Lit string
  | One atom
  | Star atom
  | Plus atom
  | LazyStar atom
  | Opt re
  | Seq re re
  | Alt re re
  | Group nat re
  | Eol
  | WordB

fun seqs :: "re list \<Rightarrow> re" where
  "seqs [] = Lit []"
| "seqs [r] = r"
| "seqs (r # q # rs) = Seq r (seqs (q # rs))"

fun alts :: "re list \<Rightarrow> re" where
  "alts [] = Lit []"
| "alts [r] = r"
| "alts (r # q # rs) = Alt r (alts (q # rs))"

text \<open>Under the \<^verbatim>\<open>i\<close> flag both sides of a comparison are upper-cased.\<close>

definition canon :: "bool \<Rightarrow> char \<Rightarrow> char" where
  "canon ic c = (if ic then toUpperChar c else c)"

fun atom_ok :: "bool \<Rightarrow> atom \<Rightarrow> char \<Rightarrow> bool" where
  "atom_ok ic (AChar d) c = (canon ic c = canon ic d)"
| "atom_ok ic ASpace c = isSpace c"
| "atom_ok ic AWord c = isWord c"
| "atom_ok ic ADigit c = isDigit c"
| "atom_ok ic AAny c = True"
| "atom_ok ic (ANot d) c = (canon ic c \<noteq> canon ic d)"

text \<open>
  A matcher state: the text already passed (reversed, so its head is the character
  before the position), the text still ahead, and the capture groups set so far.
\<close>

type_synonym groups = "nat \<Rightarrow> string option"
type_synonym mstate = "string \<times> string \<times> groups"

fun lit_step :: "bool \<Rightarrow> string \<Rightarrow> string \<Rightarrow> string \<Rightarrow> (string \<times> string) option" where
  "lit_step ic [] b s = Some (b, s)"
| "lit_step ic (p # ps) b [] = None"
| "lit_step ic (p # ps) b (x # xs) =
     (if canon ic x = canon ic p then lit_step ic ps (x # b) xs else None)"

text \<open>\<^verbatim>\<open>\b\<close> looks at the characters on both sides; the ends of the text count as non-word.\<close>

fun word_here :: "string \<Rightarrow> bool" where
  "word_here [] = False"
| "word_here (x # xs) = isWord x"

fun rx :: "bool \<Rightarrow> re \<Rightarrow> (mstate \<Rightarrow> mstate option) \<Rightarrow> mstate \<Rightarrow> mstate option" where
  "rx ic (Lit p) k (b, s, g) =
     (case lit_step ic p b s of None \<Rightarrow> None | Some (b', s') \<Rightarrow> k (b', s', g))"
| "rx ic (One a) k (b, [], g) = None"
| "rx ic (One a) k (b, x # xs, g) = (if atom_ok ic a x then k (x # b, xs, g) else None)"
| "rx ic (Star a) k (b, [], g) = k (b, [], g)"
| "rx ic (Star a) k (b, x # xs, g) =
     (if atom_ok ic a x
      then (case rx ic (Star a) k (x # b, xs, g) of
              Some r \<Rightarrow> Some r
            | None \<Rightarrow> k (b, x # xs, g))
      else k (b, x # xs, g))"
| "rx ic (Plus a) k (b, [], g) = None"
| "rx ic (Plus a) k (b, x # xs, g) =
     (if atom_ok ic a x then rx ic (Star a) k (x # b, xs, g) else None)"
| "rx ic (LazyStar a) k (b, [], g) = k (b, [], g)"
| "rx ic (LazyStar a) k (b, x # xs, g) =
     (case k (b, x # xs, g) of
        Some r \<Rightarrow> Some r
      | None \<Rightarrow> if atom_ok ic a x then rx ic (LazyStar a) k (x # b, xs, g) else None)"
| "rx ic (Opt r) k st =
     (case rx ic r k st of Some r \<Rightarrow> Some r | None \<Rightarrow> k st)"
| "rx ic (Seq r1 r2) k st = rx ic r1 (\<lambda>st'. rx ic r2 k st') st"
| "rx ic (Alt r1 r2) k st =
     (case rx ic r1 k st of Some r \<Rightarrow> Some r | None \<Rightarrow> rx ic r2 k st)"
| "rx ic (Group n r) k (b, s, g) =
     rx ic r (\<lambda>(b', s', g'). k (b', s', g'(n \<mapsto> take (length s - length s') s))) (b, s, g)"
| "rx ic Eol k (b, s, g) = (if s = [] then k (b, s, g) else None)"
| "rx ic WordB k (b, s, g) = (if word_here b \<noteq> word_here s then k (b, s, g) else None)"

text \<open>
  The search of \<^verbatim>\<open>exec\<close>: the pattern is tried at each position from left to
  right, the end of the text included. The result is the text before the match
  (reversed) and the state at the end of the match.
\<close>

fun rx_search :: "bool \<Rightarrow> re \<Rightarrow> string \<Rightarrow> string \<Rightarrow> (string \<times> mstate) option" where
  "rx_search ic r b [] =
     (case rx ic r Some (b, [], Map.empty) of None \<Rightarrow> None | Some e \<Rightarrow> Some (b, e))"
| "rx_search ic r b (x # xs) =
     (case rx ic r Some (b, x # xs, Map.empty) of
        None \<Rightarrow> rx_search ic r (x # b) xs
      | Some e \<Rightarrow> Some (b, e))"

text \<open>\<^verbatim>\<open>re.test(s)\<close>, \<^verbatim>\<open>s.match(re)\<close> without the \<^verbatim>\<open>g\<close> flag, and \<^verbatim>\<open>m[n]\<close>.\<close>

definition re_test :: "bool \<Rightarrow> re \<Rightarrow> string \<Rightarrow> bool" where
  "re_test ic r s = (rx_search ic r [] s \<noteq> None)"

definition str_match :: "bool \<Rightarrow> re \<Rightarrow> string \<Rightarrow> groups option" where
  "str_match ic r s =
     (case rx_search ic r [] s of None \<Rightarrow> None | Some (b0, b1, s1, g) \<Rightarrow> Some g)"

definition grp :: "groups \<Rightarrow> nat \<Rightarrow> string" where
  "grp g n = (case g n of None \<Rightarrow> [] | Some t \<Rightarrow> t)"

text \<open>\<^verbatim>\<open>s.replace(re, rep)\<close> without the \<^verbatim>\<open>g\<close> flag replaces the first match only.\<close>

definition str_replace :: "bool \<Rightarrow> re \<Rightarrow> string \<Rightarrow> string \<Rightarrow> string" where
  "str_replace ic r rep s =
     (case rx_search ic r [] s of None \<Rightarrow> s | Some (b0, b1, s1, g) \<Rightarrow> rev b0 @ rep @ s1)"

text \<open>
  The \<^verbatim>\<open>g\<close> flag: the scan resumes at the end of each match (\<^verbatim>\<open>lastIndex\<close>), and
  one character further after an empty match. \<open>skip\<close> counts the positions that still
  lie inside the last match.
\<close>

fun matchAll_scan :: "bool \<Rightarrow> re \<Rightarrow> nat \<Rightarrow> string \<Rightarrow> string \<Rightarrow> groups list" where
  "matchAll_scan ic r skip b [] =
     (if 0 < skip then []
      else (case rx ic r Some (b, [], Map.empty) of None \<Rightarrow> [] | Some (b1, s1, g) \<Rightarrow> [g]))"
| "matchAll_scan ic r skip b (x # xs) =
     (if 0 < skip then matchAll_scan ic r (skip - 1) (x # b) xs
      else (case rx ic r Some (b, x # xs, Map.empty) of
              None \<Rightarrow> matchAll_scan ic r 0 (x # b) xs
            | Some (b1, s1, g) \<Rightarrow>
                g # matchAll_scan ic r (length b1 - length b - 1) (x # b) xs))"

definition matchAll :: "bool \<Rightarrow> re \<Rightarrow> string \<Rightarrow> groups list" where
  "matchAll ic r s = matchAll_scan ic r 0 [] s"

fun replaceAll_scan :: "bool \<Rightarrow> re \<Rightarrow> string \<Rightarrow> nat \<Rightarrow> string \<Rightarrow> string \<Rightarrow> string" where
  "replaceAll_scan ic r rep skip b [] =
     (if 0 < skip then []
      else (case rx ic r Some (b, [], Map.empty) of None \<Rightarrow> [] | Some e \<Rightarrow> rep))"
| "replaceAll_scan ic r rep skip b (x # xs) =
     (if 0 < skip then replaceAll_scan ic r rep (skip - 1) (x # b) xs
      else (case rx ic r Some (b, x # xs, Map.empty) of
              None \<Rightarrow> x # replaceAll_scan ic r rep 0 (x # b) xs
            | Some (b1, s1, g) \<Rightarrow>
                rep @ (if length b1 = length b then [x] else [])
                    @ replaceAll_scan ic r rep (length b1 - length b - 1) (x # b) xs))"

definition replaceAll :: "bool \<Rightarrow> re \<Rightarrow> string \<Rightarrow> string \<Rightarrow> string" where
  "replaceAll ic r rep s = replaceAll_scan ic r rep 0 [] s"

text \<open>
  \<^verbatim>\<open>s.split(/\s+/)\<close>: the pieces between the maximal runs of white space.
\<close>

fun split_ws_acc :: "string \<Rightarrow> bool \<Rightarrow> string \<Rightarrow> string list" where
  "split_ws_acc cur insp [] = [rev cur]"
| "split_ws_acc cur insp (x # xs) =
     (if isSpace x then (if insp then split_ws_acc cur True xs else rev cur # split_ws_acc [] True xs)
      else split_ws_acc (x # cur) False xs)"

definition split_ws :: "string \<Rightarrow> string list" where
  "split_ws s = split_ws_acc [] False s"

section \<open>Values, the store client and its query builder\<close>

datatype jsval =
    JUndefined
  | JNull
  | JBool bool
  | JNum rat
  | JStr string
  | JArr "jsval list"
  | JObj "(string \<times> jsval) list"

type_synonym row = "(string \<times> jsval) list"

text \<open>
  Numbers are the exact values of their decimal literals; the rounding of
  \<^verbatim>\<open>parseFloat\<close> to a double is not modelled. Both parsers are only ever given text
  that a \<^verbatim>\<open>\d+\<close> or \<^verbatim>\<open>\d+(?:\.\d+)?\<close> group has matched.
\<close>

definition digit_val :: "char \<Rightarrow> nat" where
  "digit_val c = of_char c - 48"

definition parseInt :: "string \<Rightarrow> nat" where
  "parseInt s = foldl (\<lambda>n c. 10 * n + digit_val c) 0 (takeWhile isDigit s)"

definition parseFloat :: "string \<Rightarrow> rat" where
  "parseFloat s =
     (let ip = takeWhile isDigit s;
          fp = (case dropWhile isDigit s of
                  [] \<Rightarrow> []
                | c # t \<Rightarrow> if c = CHR ''.'' then takeWhile isDigit t else [])
      in of_nat (parseInt ip) + of_nat (parseInt fp) / 10 ^ length fp)"

text \<open>
  One call on the query builder of the store client. \<open>Select cols None\<close> is
  \<^verbatim>\<open>select(cols)\<close>; \<open>Select cols (Some h)\<close> is
  \<^verbatim>\<open>select(cols, { count: 'exact', head: h })\<close>; \<open>NotIs c v\<close> is
  \<^verbatim>\<open>not(c, 'is', v)\<close>. A query is the chain of calls made on one builder.
\<close>

datatype call =
    From string
  | Select string "bool option"
  | Eq string jsval
  | Lt string jsval
  | Gt string jsval
  | Gte string jsval
  | Lte string jsval
  | Ilike string jsval
  | NotIs string jsval
  | Order string bool
  | Limit jsval

type_synonym query = "call list"

record response =
  resp_data :: "row list option"
  resp_error :: "string option"
  resp_count :: "nat option"

text \<open>
  The store answers an awaited query; \<open>received\<close> records the queries that were
  awaited, in order. A builder that is never awaited sends nothing.
\<close>

record store =
  respond :: "query \<Rightarrow> response"
  received :: "query list"

definition await :: "store \<Rightarrow> query \<Rightarrow> response \<times> store" where
  "await st q = (respond st q, st\<lparr>received := received st @ [q]\<rparr>)"

datatype exn = Error string | TypeError string | StoreError string

fun message :: "exn \<Rightarrow> string" where
  "message (Error m) = m"
| "message (TypeError m) = m"
| "message (StoreError m) = m"

section \<open>The safety validator (backend/src/services/geminiService.js)\<close>

definition dangerousKeywords :: "string list" where
  "dangerousKeywords =
     [''DELETE'', ''INSERT'', ''UPDATE'', ''DROP'', ''ALTER'', ''CREATE'', ''TRUNCATE'',
      ''EXEC'', ''EXECUTE'']"

text \<open>\<^verbatim>\<open>new RegExp(`\\b(${dangerousKeywords.join('|')})\\b`, 'i')\<close>\<close>

definition dangerousPattern :: re where
  "dangerousPattern = seqs [WordB, Group 1 (alts (map Lit dangerousKeywords)), WordB]"

text \<open>
  The body of the \<^verbatim>\<open>try\<close> block. A value that is not a string has no
  \<^verbatim>\<open>replace\<close> method, so the first call throws.
\<close>

definition isSafeQuery_try :: "jsval \<Rightarrow> exn + bool" where
  "isSafeQuery_try sql =
     (case sql of
        JStr s \<Rightarrow>
          (let cleanSql = trim (replaceAll False (Plus ASpace) '' '' s);
               upperSql = toUpperCase cleanSql
           in if \<not> startsWith upperSql ''SELECT'' then Inr False
              else if re_test True dangerousPattern cleanSql then Inr False
              else if re_test True (seqs [WordB, Lit ''INTO'', WordB]) cleanSql
                      \<or> re_test True (seqs [WordB, Lit ''VALUES'', WordB]) cleanSql
                   then Inr False
              else Inr True)
      | _ \<Rightarrow> Inl (TypeError ''sql.replace is not a function''))"

text \<open>\<^verbatim>\<open>catch (error) { return false; }\<close>\<close>

definition isSafeQuery :: "jsval \<Rightarrow> bool" where
  "isSafeQuery sql = (case isSafeQuery_try sql of Inl e \<Rightarrow> False | Inr ok \<Rightarrow> ok)"

section \<open>The translator (backend/src/services/databaseService.js)\<close>

subsection \<open>The clause helpers\<close>

text \<open>\<^verbatim>\<open>\d+(?:\.\d+)?\<close>\<close>

definition number_re :: re where
  "number_re = Seq (Plus ADigit) (Opt (Seq (Lit ''.'') (Plus ADigit)))"

text \<open>\<^verbatim>\<open>(\w+)\s*OP\s*(\d+(?:\.\d+)?)\<close>\<close>

definition compare_re :: "string \<Rightarrow> re" where
  "compare_re opr =
     seqs [Group 1 (Plus AWord), Star ASpace, Lit opr, Star ASpace, Group 2 number_re]"

definition applyWhereClause :: "query \<Rightarrow> string \<Rightarrow> query" where
  "applyWhereClause query sql =
     (case str_match True
             (seqs [Lit ''WHERE'', Plus ASpace, Group 1 (LazyStar AAny),
                    alts [Lit ''ORDER BY'', Lit ''GROUP BY'', Lit ''LIMIT'', Eol]]) sql of
        None \<Rightarrow> query
      | Some whereMatch \<Rightarrow>
          (let whereClause = trim (grp whereMatch 1);
               eqMatches = matchAll True
                 (seqs [Group 1 (Plus AWord), Star ASpace, Lit ''='', Star ASpace,
                        Lit [CHR 0x27], Group 2 (Plus (ANot (CHR 0x27))), Lit [CHR 0x27]])
                 whereClause;
               query = query @ map (\<lambda>m. Eq (grp m 1) (JStr (grp m 2))) eqMatches;
               numEqMatches = matchAll True (compare_re ''='') whereClause;
               query = query @ map (\<lambda>m. Eq (grp m 1) (JNum (parseFloat (grp m 2)))) numEqMatches;
               ltMatches = matchAll True (compare_re ''<'') whereClause;
               query = query @ map (\<lambda>m. Lt (grp m 1) (JNum (parseFloat (grp m 2)))) ltMatches;
               gtMatches = matchAll True (compare_re ''>'') whereClause;
               query = query @ map (\<lambda>m. Gt (grp m 1) (JNum (parseFloat (grp m 2)))) gtMatches;
               gteMatches = matchAll True (compare_re ''>='') whereClause;
               query = query @ map (\<lambda>m. Gte (grp m 1) (JNum (parseFloat (grp m 2)))) gteMatches;
               lteMatches = matchAll True (compare_re ''<='') whereClause;
               query = query @ map (\<lambda>m. Lte (grp m 1) (JNum (parseFloat (grp m 2)))) lteMatches;
               query =
                 (case str_match True
                         (seqs [Group 1 (Plus AWord), Plus ASpace, Lit ''BETWEEN'', Plus ASpace,
                                Group 2 number_re, Plus ASpace, Lit ''AND'', Plus ASpace,
                                Group 3 number_re]) whereClause of
                    None \<Rightarrow> query
                  | Some betweenMatch \<Rightarrow>
                      query @ [Gte (grp betweenMatch 1) (JNum (parseFloat (grp betweenMatch 2))),
                               Lte (grp betweenMatch 1) (JNum (parseFloat (grp betweenMatch 3)))]);
               ilikeMatches = matchAll True
                 (seqs [Group 1 (Plus AWord), Plus ASpace, Lit ''ILIKE'', Star ASpace,
                        Lit [CHR 0x27], Group 2 (Plus (ANot (CHR 0x27))), Lit [CHR 0x27]])
                 whereClause;
               query = query @ map (\<lambda>m. Ilike (grp m 1) (JStr (grp m 2))) ilikeMatches
           in query))"

text \<open>
  \<^verbatim>\<open>parts[1]?.toUpperCase() === 'DESC' ? false : true\<close>: a missing second part
  gives ascending order.
\<close>

definition applyOrderBy :: "query \<Rightarrow> string \<Rightarrow> query" where
  "applyOrderBy query sql =
     (case str_match True
             (seqs [Lit ''ORDER BY'', Plus ASpace, Group 1 (LazyStar AAny),
                    alts [Lit ''LIMIT'', Eol]]) sql of
        None \<Rightarrow> query
      | Some orderMatch \<Rightarrow>
          (let orderClause = trim (grp orderMatch 1);
               parts = split_ws (trim (hd (split_on (CHR '','') orderClause)));
               column = hd parts;
               direction = (case tl parts of
                              [] \<Rightarrow> True
                            | p # ps \<Rightarrow> if toUpperCase p = ''DESC'' then False else True)
           in query @ [Order column direction]))"

text \<open>The builder has no GROUP BY: the query comes back unchanged.\<close>

definition applyGroupBy :: "query \<Rightarrow> string \<Rightarrow> query" where
  "applyGroupBy query sql = query"

definition applyLimit :: "query \<Rightarrow> string \<Rightarrow> query" where
  "applyLimit query sql =
     (case str_match True (seqs [Lit ''LIMIT'', Plus ASpace, Group 1 (Plus ADigit)]) sql of
        None \<Rightarrow> query
      | Some limitMatch \<Rightarrow> query @ [Limit (JNum (of_nat (parseInt (grp limitMatch 1))))])"

subsection \<open>parseAndExecuteSQL\<close>

text \<open>
  What \<^verbatim>\<open>parseAndExecuteSQL\<close> returns: \<^verbatim>\<open>{ data, count }\<close>, where \<^verbatim>\<open>data\<close> can be
  the \<^verbatim>\<open>null\<close> of the store.
\<close>

record parsed =
  p_data :: "row list option"
  p_count :: nat

text \<open>\<^verbatim>\<open>sql.replace(/;+$/, '').trim()\<close>\<close>

definition cleanSQL_of :: "string \<Rightarrow> string" where
  "cleanSQL_of sql = trim (str_replace False (seqs [Plus (AChar (CHR '';'')), Eol]) [] sql)"

text \<open>\<^verbatim>\<open>/FROM\s+(\w+)/i\<close> and \<^verbatim>\<open>/SELECT\s+([\s\S]*?)\s+FROM/i\<close>\<close>

definition from_re :: re where
  "from_re = seqs [Lit ''FROM'', Plus ASpace, Group 1 (Plus AWord)]"

definition select_re :: re where
  "select_re = seqs [Lit ''SELECT'', Plus ASpace, Group 1 (LazyStar AAny), Plus ASpace, Lit ''FROM'']"

text \<open>
  Lines 441 to 458: the projection handed to \<^verbatim>\<open>select\<close> and the \<^verbatim>\<open>isDistinct\<close> flag.
\<close>

definition selectList :: "string \<Rightarrow> string \<times> bool" where
  "selectList cleanSQL =
     (case str_match True select_re cleanSQL of
        None \<Rightarrow> (''*'', False)
      | Some selectMatch \<Rightarrow>
          (let selectColumns = trim (grp selectMatch 1);
               isDistinct = startsWith (toUpperCase selectColumns) ''DISTINCT '';
               selectColumns = (if isDistinct then trim (drop 9 selectColumns) else selectColumns);
               selectColumns =
                 (if selectColumns \<noteq> ''*'' \<and> \<not> str_includes selectColumns ''(''
                  then join (CHR '','') (map trim (split_on (CHR '','') selectColumns))
                  else selectColumns)
           in (selectColumns, isDistinct)))"

text \<open>
  Lines 479 to 485: the filter over the rows with the set of serialisations seen so
  far. \<open>stringify\<close> stands for \<^verbatim>\<open>JSON.stringify\<close>.
\<close>

fun distinct_filter :: "(row \<Rightarrow> string) \<Rightarrow> string list \<Rightarrow> row list \<Rightarrow> row list" where
  "distinct_filter stringify uniqueSet [] = []"
| "distinct_filter stringify uniqueSet (item # items) =
     (let val = stringify item
      in if val \<in> set uniqueSet then distinct_filter stringify uniqueSet items
         else item # distinct_filter stringify (val # uniqueSet) items)"

definition parseAndExecuteSQL ::
    "(row \<Rightarrow> string) \<Rightarrow> store \<Rightarrow> string \<Rightarrow> (exn + parsed) \<times> store" where
  "parseAndExecuteSQL stringify st sql =
     (let cleanSQL = cleanSQL_of sql;
          upperSQL = toUpperCase cleanSQL
      in case str_match True from_re cleanSQL of
           None \<Rightarrow>
             if upperSQL = ''SELECT 1''
             then (Inr \<lparr>p_data = Some [[(''result'', JNum 1)]], p_count = 1\<rparr>, st)
             else (Inl (Error ''Could not parse table name from query''), st)
         | Some fromMatch \<Rightarrow>
             (let tableName = grp fromMatch 1;
                  query = [From tableName]
              in if str_includes upperSQL ''COUNT(*)''
                 then
                   (let query = query @ [Select ''*'' (Some False)];
                        query = applyWhereClause query cleanSQL;
                        query =
                          (if str_includes upperSQL ''GROUP BY''
                           then (case str_match True select_re cleanSQL of
                                   None \<Rightarrow> query
                                 | Some selectMatch \<Rightarrow>
                                     (let columns = trim (grp selectMatch 1);
                                          query = [From tableName, Select columns None];
                                          query = applyWhereClause query cleanSQL
                                      in applyGroupBy query cleanSQL))
                           else query);
                        (resp, st') = await st query
                    in case resp_error resp of
                         Some e \<Rightarrow> (Inl (StoreError e), st')
                       | None \<Rightarrow>
                           if str_includes upperSQL ''GROUP BY''
                           then (Inr \<lparr>p_data = resp_data resp,
                                      p_count = (case resp_data resp of
                                                   None \<Rightarrow> 0 | Some d \<Rightarrow> length d)\<rparr>, st')
                           else (Inr \<lparr>p_data = Some [[(''total'',
                                        (case resp_count resp of
                                           None \<Rightarrow> JNull | Some n \<Rightarrow> JNum (of_nat n)))]],
                                      p_count = 1\<rparr>, st'))
                 else
                   (let (selectColumns, isDistinct) = selectList cleanSQL;
                        query = [From tableName, Select selectColumns None];
                        query = applyWhereClause query cleanSQL;
                        query = applyOrderBy query cleanSQL;
                        query = applyLimit query cleanSQL;
                        (resp, st') = await st query
                    in case resp_error resp of
                         Some e \<Rightarrow> (Inl (StoreError e), st')
                       | None \<Rightarrow>
                           (let finalData = (case resp_data resp of None \<Rightarrow> [] | Some d \<Rightarrow> d);
                                finalData =
                                  (if isDistinct \<and> 0 < length finalData
                                   then distinct_filter stringify [] finalData
                                   else finalData)
                            in (Inr \<lparr>p_data = Some finalData, p_count = length finalData\<rparr>,
                                st')))))"

subsection \<open>executeDynamicQuery\<close>

text \<open>
  The result object handed to the caller: \<^verbatim>\<open>{ success, data, count, query }\<close> on
  success and \<^verbatim>\<open>{ success, error, query }\<close> from the \<^verbatim>\<open>catch\<close> block. A field
  that the object does not have is \<open>None\<close>.
\<close>

record result =
  success :: bool
  data :: "row list option"
  count :: "nat option"
  error :: "string option"
  query :: jsval

text \<open>The body of the \<^verbatim>\<open>try\<close> block.\<close>

definition executeDynamicQuery_try ::
    "(row \<Rightarrow> string) \<Rightarrow> store \<Rightarrow> jsval \<Rightarrow> (exn + result) \<times> store" where
  "executeDynamicQuery_try stringify st sqlQuery =
     (if \<not> isSafeQuery sqlQuery then (Inl (Error ''Query contains unsafe operations''), st)
      else case sqlQuery of
             JStr sql \<Rightarrow>
               (let upperQuery = trim (toUpperCase sql)
                in if \<not> startsWith upperQuery ''SELECT''
                   then (Inl (Error ''Only SELECT queries are allowed''), st)
                   else (case parseAndExecuteSQL stringify st sql of
                           (Inl e, st') \<Rightarrow> (Inl e, st')
                         | (Inr res, st') \<Rightarrow>
                             (Inr \<lparr>success = True,
                                   data = Some (case p_data res of None \<Rightarrow> [] | Some d \<Rightarrow> d),
                                   count = Some (case p_data res of
                                                   None \<Rightarrow> p_count res
                                                 | Some d \<Rightarrow>
                                                     if length d \<noteq> 0 then length d
                                                     else p_count res),
                                   error = None,
                                   query = sqlQuery\<rparr>, st')))
           | _ \<Rightarrow> (Inl (TypeError ''sqlQuery.toUpperCase is not a function''), st))"

text \<open>\<^verbatim>\<open>catch (error) { return { success: false, error: error.message, query: sqlQuery }; }\<close>\<close>

definition executeDynamicQuery ::
    "(row \<Rightarrow> string) \<Rightarrow> store \<Rightarrow> jsval \<Rightarrow> result \<times> store" where
  "executeDynamicQuery stringify st sqlQuery =
     (case executeDynamicQuery_try stringify st sqlQuery of
        (Inr res, st') \<Rightarrow> (res, st')
      | (Inl e, st') \<Rightarrow>
          (\<lparr>success = False, data = None, count = None, error = Some (message e),
            query = sqlQuery\<rparr>, st'))"

subsection \<open>executeQuery\<close>

text \<open>
  \<^verbatim>\<open>executeQuery\<close> exists twice: in backend/src/services/databaseService.js and in
  src/services/databaseService.js. The two differ in the test that opens the COUNT
  branch and in the GROUP BY branch, which only the second has; the other branches are
  the same text and are modelled once.
\<close>

record qresult = result +
  params :: "jsval list"

text \<open>The decimal text of a number, for the placeholders \<^verbatim>\<open>`$${i + 1}`\<close>.\<close>

fun dec :: "nat \<Rightarrow> string" where
  "dec n = (if n < 10 then [''0123456789'' ! n] else dec (n div 10) @ [''0123456789'' ! (n mod 10)])"

fun findIndex_from :: "(nat \<Rightarrow> bool) \<Rightarrow> nat \<Rightarrow> 'a list \<Rightarrow> nat option" where
  "findIndex_from P i [] = None"
| "findIndex_from P i (x # xs) = (if P i then Some i else findIndex_from P (Suc i) xs)"

text \<open>\<^verbatim>\<open>params.findIndex((_, i) => cleanQuery.includes(`$${i + 1}`))\<close>; \<open>None\<close> is \<open>-1\<close>.\<close>

definition param_index :: "string \<Rightarrow> jsval list \<Rightarrow> nat option" where
  "param_index cleanQuery ps =
     findIndex_from (\<lambda>i. str_includes cleanQuery (CHR ''$'' # dec (i + 1))) 0 ps"

text \<open>\<^verbatim>\<open>q.OP(column, params[index])\<close> under \<^verbatim>\<open>if (index !== -1)\<close>.\<close>

definition with_param ::
    "query \<Rightarrow> (jsval \<Rightarrow> call) \<Rightarrow> string \<Rightarrow> jsval list \<Rightarrow> query" where
  "with_param q mk cleanQuery ps =
     (case param_index cleanQuery ps of None \<Rightarrow> q | Some i \<Rightarrow> q @ [mk (ps ! i)])"

fun indexOf :: "string \<Rightarrow> string \<Rightarrow> nat option" where
  "indexOf [] p = (if p = [] then Some 0 else None)"
| "indexOf (x # xs) p =
     (if startsWith (x # xs) p then Some 0 else map_option Suc (indexOf xs p))"

text \<open>\<^verbatim>\<open>item.category\<close>: a missing property reads as \<^verbatim>\<open>undefined\<close>.\<close>

definition get_prop :: "row \<Rightarrow> string \<Rightarrow> jsval" where
  "get_prop item k = (case map_of item k of None \<Rightarrow> JUndefined | Some v \<Rightarrow> v)"

text \<open>The COUNT branch: the builder is opened in head mode.\<close>

definition countBranch ::
    "store \<Rightarrow> string \<Rightarrow> string \<Rightarrow> jsval list \<Rightarrow> (exn + row list \<times> nat) \<times> store" where
  "countBranch st cleanQuery upperQuery ps =
     (let countQuery = [From ''items'', Select ''*'' (Some True)];
          countQuery =
            (if str_includes upperQuery ''WHERE''
             then
               (let whereClause =
                      (case indexOf (toUpperCase cleanQuery) ''WHERE'' of
                         None \<Rightarrow> drop 4 cleanQuery
                       | Some i \<Rightarrow> drop (i + 5) cleanQuery);
                    countQuery =
                      (if str_includes whereClause ''CATEGORY =''
                       then with_param countQuery (Eq ''category'') cleanQuery ps
                       else countQuery);
                    countQuery =
                      (if str_includes whereClause ''IS_ACTIVE =''
                       then with_param countQuery (Eq ''is_active'') cleanQuery ps
                       else countQuery)
                in countQuery)
             else countQuery);
          (resp, st') = await st countQuery
      in case resp_error resp of
           Some e \<Rightarrow> (Inl (StoreError e), st')
         | None \<Rightarrow>
             (Inr ([[(''total'', (case resp_count resp of
                                    None \<Rightarrow> JNull | Some n \<Rightarrow> JNum (of_nat n)))]], 1), st'))"

text \<open>The regular SELECT branch.\<close>

definition selectBranch ::
    "store \<Rightarrow> string \<Rightarrow> string \<Rightarrow> jsval list \<Rightarrow> (exn + row list \<times> nat) \<times> store" where
  "selectBranch st cleanQuery upperQuery ps =
     (let selectQuery = [From ''items'', Select ''*'' None];
          selectQuery =
            (if str_includes upperQuery ''WHERE''
             then
               (let selectQuery =
                      (if str_includes upperQuery ''CATEGORY =''
                       then with_param selectQuery (Eq ''category'') cleanQuery ps
                       else selectQuery);
                    selectQuery =
                      (if str_includes upperQuery ''PRICE >=''
                       then with_param selectQuery (Gte ''price'') cleanQuery ps
                       else selectQuery);
                    selectQuery =
                      (if str_includes upperQuery ''PRICE <=''
                       then with_param selectQuery (Lte ''price'') cleanQuery ps
                       else selectQuery);
                    selectQuery =
                      (if str_includes upperQuery ''RATING >=''
                       then with_param selectQuery (Gte ''rating'') cleanQuery ps
                       else selectQuery);
                    selectQuery =
                      (if str_includes upperQuery ''NAME ILIKE''
                       then with_param selectQuery (Ilike ''name'') cleanQuery ps
                       else selectQuery);
                    selectQuery =
                      (if str_includes upperQuery ''IS_ACTIVE = TRUE''
                       then selectQuery @ [Eq ''is_active'' (JBool True)]
                       else selectQuery)
                in selectQuery)
             else selectQuery);
          selectQuery =
            (if str_includes upperQuery ''ORDER BY''
             then
               (if str_includes upperQuery ''PRICE ASC'' then selectQuery @ [Order ''price'' True]
                else if str_includes upperQuery ''PRICE DESC'' then selectQuery @ [Order ''price'' False]
                else if str_includes upperQuery ''RATING DESC'' then selectQuery @ [Order ''rating'' False]
                else if str_includes upperQuery ''CREATED_DATE DESC''
                     then selectQuery @ [Order ''created_date'' False]
                else if str_includes upperQuery ''CREATED_DATE ASC''
                     then selectQuery @ [Order ''created_date'' True]
                else if str_includes upperQuery ''NAME ASC'' then selectQuery @ [Order ''name'' True]
                else selectQuery)
             else selectQuery);
          selectQuery =
            (if str_includes upperQuery ''LIMIT''
             then with_param selectQuery Limit cleanQuery ps
             else selectQuery);
          (resp, st') = await st selectQuery
      in case resp_error resp of
           Some e \<Rightarrow> (Inl (StoreError e), st')
         | None \<Rightarrow>
             (case resp_data resp of
                None \<Rightarrow> (Inr ([], 0), st')
              | Some d \<Rightarrow> (Inr (d, length d), st')))"

text \<open>
  \<^verbatim>\<open>[...new Set(xs)]\<close> keeps the first of equal values. \<^verbatim>\<open>sort()\<close> without a
  comparator puts \<^verbatim>\<open>undefined\<close> last and orders the rest by their string
  conversions, stably. \<open>toStr\<close> stands for that conversion (\<^verbatim>\<open>String(v)\<close>).
\<close>

fun unique_values :: "jsval list \<Rightarrow> jsval list \<Rightarrow> jsval list" where
  "unique_values seen [] = []"
| "unique_values seen (v # vs) =
     (if v \<in> set seen then unique_values seen vs else v # unique_values (v # seen) vs)"

definition sort_default :: "(jsval \<Rightarrow> string) \<Rightarrow> jsval list \<Rightarrow> jsval list" where
  "sort_default toStr vs =
     sort_key toStr (filter (\<lambda>v. v \<noteq> JUndefined) vs) @ filter (\<lambda>v. v = JUndefined) vs"

text \<open>The SELECT DISTINCT CATEGORY branch.\<close>

definition categoriesBranch ::
    "(jsval \<Rightarrow> string) \<Rightarrow> store \<Rightarrow> (exn + row list \<times> nat) \<times> store" where
  "categoriesBranch toStr st =
     (let (resp, st') = await st [From ''items'', Select ''category'' None, NotIs ''category'' JNull]
      in case resp_error resp of
           Some e \<Rightarrow> (Inl (StoreError e), st')
         | None \<Rightarrow>
             (case resp_data resp of
                None \<Rightarrow> (Inl (TypeError ''Cannot read properties of null (reading map)''), st')
              | Some d \<Rightarrow>
                  (let uniqueCategories =
                         sort_default toStr (unique_values [] (map (\<lambda>item. get_prop item ''category'') d))
                   in (Inr (map (\<lambda>category. [(''category'', category)]) uniqueCategories,
                            length uniqueCategories), st'))))"

text \<open>\<^verbatim>\<open>return { success: true, ... }\<close> and the \<^verbatim>\<open>catch\<close> block of \<^verbatim>\<open>executeQuery\<close>.\<close>

definition to_result ::
    "jsval \<Rightarrow> jsval list \<Rightarrow> (exn + row list \<times> nat) \<times> store \<Rightarrow> qresult \<times> store" where
  "to_result q ps out =
     (case out of
        (Inr (d, n), st') \<Rightarrow>
          (\<lparr>success = True, data = Some d, count = Some n, error = None, query = q,
            params = ps\<rparr>, st')
      | (Inl e, st') \<Rightarrow>
          (\<lparr>success = False, data = None, count = None, error = Some (message e), query = q,
            params = ps\<rparr>, st'))"

text \<open>backend/src/services/databaseService.js, lines 178 to 333.\<close>

definition executeQuery_try ::
    "(jsval \<Rightarrow> string) \<Rightarrow> store \<Rightarrow> jsval \<Rightarrow> jsval list \<Rightarrow> (exn + row list \<times> nat) \<times> store" where
  "executeQuery_try toStr st q ps =
     (if \<not> isSafeQuery q then (Inl (Error ''Query contains unsafe operations''), st)
      else case q of
             JStr s \<Rightarrow>
               (let cleanQuery = trim (replaceAll False (Plus ASpace) '' '' s);
                    upperQuery = toUpperCase cleanQuery
                in if str_includes upperQuery ''SELECT'' \<and> str_includes upperQuery ''FROM ITEMS''
                   then
                     (if str_includes upperQuery ''COUNT(*)''
                      then countBranch st cleanQuery upperQuery ps
                      else selectBranch st cleanQuery upperQuery ps)
                   else if str_includes upperQuery ''SELECT DISTINCT CATEGORY''
                   then categoriesBranch toStr st
                   else (Inl (Error ''Unsupported query type''), st))
           | _ \<Rightarrow> (Inl (TypeError ''query.replace is not a function''), st))"

definition executeQuery ::
    "(jsval \<Rightarrow> string) \<Rightarrow> store \<Rightarrow> jsval \<Rightarrow> jsval list \<Rightarrow> qresult \<times> store" where
  "executeQuery toStr st q ps = to_result q ps (executeQuery_try toStr st q ps)"

section \<open>The services under src/services\<close>

text \<open>
  src/services/geminiService.js: the validator looks for the keywords with
  \<^verbatim>\<open>includes\<close> and asks for the items table.
\<close>

definition isSafeQuery_src_try :: "jsval \<Rightarrow> exn + bool" where
  "isSafeQuery_src_try sql =
     (case sql of
        JStr s \<Rightarrow>
          (let cleanSql = trim (replaceAll False (Plus ASpace) '' '' s);
               upperSql = toUpperCase cleanSql
           in if \<not> startsWith upperSql ''SELECT'' then Inr False
              else if list_ex (\<lambda>keyword. str_includes upperSql keyword) dangerousKeywords
                   then Inr False
              else if \<not> str_includes upperSql ''FROM ITEMS'' \<and> \<not> str_includes upperSql ''JOIN ITEMS''
                   then Inr False
              else if str_includes upperSql ''INTO'' \<or> str_includes upperSql ''VALUES''
                   then Inr False
              else Inr True)
      | _ \<Rightarrow> Inl (TypeError ''sql.replace is not a function''))"

definition isSafeQuery_src :: "jsval \<Rightarrow> bool" where
  "isSafeQuery_src sql = (case isSafeQuery_src_try sql of Inl e \<Rightarrow> False | Inr ok \<Rightarrow> ok)"

text \<open>
  src/services/databaseService.js, lines 75 to 99. \<^verbatim>\<open>categoryCounts\<close> is a fresh
  object used as a counter table: its own properties in insertion order, the key of
  a row being the string conversion of its category.

  A count is a number or a text. A key that names a member of \<^verbatim>\<open>Object.prototype\<close>
  has no own property the first time it is counted, and the read finds the inherited
  member, a function or an object, instead of \<^verbatim>\<open>undefined\<close>. That value is truthy,
  and adding 1 to it appends the character 1 to its string conversion.
\<close>

datatype tally = Count nat | Text string

definition Object_prototype_names :: "string list" where
  "Object_prototype_names =
     [''constructor'', ''__proto__'', ''hasOwnProperty'', ''isPrototypeOf'',
      ''propertyIsEnumerable'', ''toLocaleString'', ''toString'', ''valueOf'',
      ''__defineGetter__'', ''__defineSetter__'', ''__lookupGetter__'', ''__lookupSetter__'']"

text \<open>
  \<^verbatim>\<open>String(Object.prototype[k])\<close> for these names, as Node prints it:
  \<^verbatim>\<open>__proto__\<close> reads \<^verbatim>\<open>Object.prototype\<close> itself, \<^verbatim>\<open>constructor\<close> the function
  \<^verbatim>\<open>Object\<close>, and every other name a native function of that name.
\<close>

definition inherited_text :: "string \<Rightarrow> string" where
  "inherited_text k =
     (if k = ''__proto__'' then ''[object Object]''
      else if k = ''constructor'' then ''function Object() { [native code] }''
      else ''function '' @ k @ ''() { [native code] }'')"

text \<open>\<^verbatim>\<open>count + 1\<close> on an own property: a number is incremented, a text grows by \<^verbatim>\<open>1\<close>.\<close>

fun plus_one :: "tally \<Rightarrow> tally" where
  "plus_one (Count n) = Count (n + 1)"
| "plus_one (Text s) = Text (s @ ''1'')"

text \<open>
  \<^verbatim>\<open>categoryCounts[category] = (categoryCounts[category] || 0) + 1\<close>. An own count
  is never 0 or empty, so \<^verbatim>\<open>||\<close> keeps it. Without an own property the count starts
  at 1, or at the text of the inherited member followed by 1. The assignment to
  \<^verbatim>\<open>__proto__\<close> runs the setter of \<^verbatim>\<open>Object.prototype\<close>, which ignores a string: no
  property is created.
\<close>

fun bump :: "(string \<times> tally) list \<Rightarrow> string \<Rightarrow> (string \<times> tally) list" where
  "bump [] category =
     (if category \<notin> set Object_prototype_names then [(category, Count 1)]
      else if category = ''__proto__'' then []
      else [(category, Text (inherited_text category @ ''1''))])"
| "bump ((k, v) # kvs) category =
     (if k = category then (k, plus_one v) # kvs else (k, v) # bump kvs category)"

text \<open>
  \<^verbatim>\<open>Object.entries\<close> lists the keys that are array indices first, in ascending
  numeric order, and then the other keys in insertion order.
\<close>

definition array_index :: "string \<Rightarrow> nat option" where
  "array_index k =
     (if k \<noteq> [] \<and> list_all isDigit k \<and> (k = ''0'' \<or> hd k \<noteq> CHR ''0'') \<and> parseInt k < 4294967295
      then Some (parseInt k) else None)"

definition Object_entries :: "(string \<times> 'a) list \<Rightarrow> (string \<times> 'a) list" where
  "Object_entries kvs =
     sort_key (\<lambda>(k, v). parseInt k) (filter (\<lambda>(k, v). array_index k \<noteq> None) kvs)
       @ filter (\<lambda>(k, v). array_index k = None) kvs"

text \<open>
  \<^verbatim>\<open>(a, b) => b.count - a.count\<close>: the difference of two numbers. With a text on
  either side the difference is \<^verbatim>\<open>NaN\<close>, which \<^verbatim>\<open>sort\<close> reads as 0.
\<close>

fun count_diff :: "string \<times> tally \<Rightarrow> string \<times> tally \<Rightarrow> int" where
  "count_diff (ka, Count m) (kb, Count n) = int n - int m"
| "count_diff a b = 0"

text \<open>
  \<^verbatim>\<open>.sort(...)\<close>: a stable sort, here by insertion, an entry going in front of the
  first entry that the comparator does not put before it. When all counts are numbers
  the comparator is an order and the result is the one every stable sort gives,
  largest count first. With a text among the counts the comparator is not
  consistent and the language leaves the order to the engine; nothing below depends
  on the order in that case.
\<close>

fun insert_entry ::
    "string \<times> tally \<Rightarrow> (string \<times> tally) list \<Rightarrow> (string \<times> tally) list" where
  "insert_entry a [] = [a]"
| "insert_entry a (b # bs) = (if count_diff a b \<le> 0 then a # b # bs else b # insert_entry a bs)"

definition sort_by_count :: "(string \<times> tally) list \<Rightarrow> (string \<times> tally) list" where
  "sort_by_count kvs = foldr insert_entry kvs []"

text \<open>The \<^verbatim>\<open>count\<close> property of an output row.\<close>

fun count_value :: "tally \<Rightarrow> jsval" where
  "count_value (Count n) = JNum (of_nat n)"
| "count_value (Text s) = JStr s"

definition groupByBranch ::
    "(jsval \<Rightarrow> string) \<Rightarrow> store \<Rightarrow> (exn + row list \<times> nat) \<times> store" where
  "groupByBranch toStr st =
     (let (resp, st') = await st [From ''items'', Select ''category'' None, NotIs ''category'' JNull]
      in case resp_error resp of
           Some e \<Rightarrow> (Inl (StoreError e), st')
         | None \<Rightarrow>
             (case resp_data resp of
                None \<Rightarrow> (Inl (TypeError ''Cannot read properties of null (reading forEach)''), st')
              | Some d \<Rightarrow>
                  (let categoryCounts =
                         foldl (\<lambda>counts item. bump counts (toStr (get_prop item ''category''))) [] d;
                       groupedData = sort_by_count (Object_entries categoryCounts)
                   in (Inr (map (\<lambda>(category, n).
                                   [(''category'', JStr category), (''count'', count_value n)])
                                groupedData,
                            length groupedData), st'))))"

definition executeQuery_src_try ::
    "(jsval \<Rightarrow> string) \<Rightarrow> store \<Rightarrow> jsval \<Rightarrow> jsval list \<Rightarrow> (exn + row list \<times> nat) \<times> store" where
  "executeQuery_src_try toStr st q ps =
     (if \<not> isSafeQuery_src q then (Inl (Error ''Query contains unsafe operations''), st)
      else case q of
             JStr s \<Rightarrow>
               (let cleanQuery = trim (replaceAll False (Plus ASpace) '' '' s);
                    upperQuery = toUpperCase cleanQuery
                in if str_includes upperQuery ''SELECT'' \<and> str_includes upperQuery ''FROM ITEMS''
                   then
                     (if str_includes upperQuery ''COUNT(*)'' \<and> \<not> str_includes upperQuery ''GROUP BY''
                      then countBranch st cleanQuery upperQuery ps
                      else if str_includes upperQuery ''GROUP BY'' \<and> str_includes upperQuery ''CATEGORY''
                      then groupByBranch toStr st
                      else selectBranch st cleanQuery upperQuery ps)
                   else if str_includes upperQuery ''SELECT DISTINCT CATEGORY''
                   then categoriesBranch toStr st
                   else (Inl (Error ''Unsupported query type''), st))
           | _ \<Rightarrow> (Inl (TypeError ''query.replace is not a function''), st))"

definition executeQuery_src ::
    "(jsval \<Rightarrow> string) \<Rightarrow> store \<Rightarrow> jsval \<Rightarrow> jsval list \<Rightarrow> qresult \<times> store" where
  "executeQuery_src toStr st q ps = to_result q ps (executeQuery_src_try toStr st q ps)"

section \<open>Statements and views used by the properties\<close>

text \<open>The two statements of the parsing examples; the second ends in a semicolon.\<close>

definition stmt_single :: string where
  "stmt_single = ''SELECT * FROM items WHERE price < 50 LIMIT 100''"

definition stmt_multi :: string where
  "stmt_multi = ''SELECT *\<newline>FROM items\<newline>WHERE price < 50\<newline>LIMIT 100;''"

definition stmt_multi_clean :: string where
  "stmt_multi_clean = ''SELECT *\<newline>FROM items\<newline>WHERE price < 50\<newline>LIMIT 100''"

text \<open>
  A DISTINCT statement on one line and over three lines, and an ORDER BY statement
  with the line break between the two words of the keyword.
\<close>

definition stmt_distinct_line :: string where
  "stmt_distinct_line = ''SELECT DISTINCT category FROM items''"

definition stmt_distinct_lines :: string where
  "stmt_distinct_lines = ''SELECT DISTINCT\<newline>category\<newline>FROM items''"

definition stmt_order_line :: string where
  "stmt_order_line = ''SELECT * FROM items ORDER BY price''"

definition stmt_order_lines :: string where
  "stmt_order_lines = ''SELECT *\<newline>FROM items\<newline>ORDER\<newline>BY price''"

text \<open>
  Lines 471 to 488 of \<^verbatim>\<open>parseAndExecuteSQL\<close> as a function of the query that is
  awaited and of the \<^verbatim>\<open>isDistinct\<close> flag; \<open>parse_select_path\<close> below shows that
  this is what the regular SELECT path computes.
\<close>

definition select_outcome ::
    "(row \<Rightarrow> string) \<Rightarrow> bool \<Rightarrow> store \<Rightarrow> query \<Rightarrow> (exn + parsed) \<times> store" where
  "select_outcome stringify isDistinct st q =
     (let (resp, st') = await st q
      in case resp_error resp of
           Some e \<Rightarrow> (Inl (StoreError e), st')
         | None \<Rightarrow>
             (let finalData = (case resp_data resp of None \<Rightarrow> [] | Some d \<Rightarrow> d);
                  finalData = (if isDistinct \<and> 0 < length finalData
                               then distinct_filter stringify [] finalData else finalData)
              in (Inr \<lparr>p_data = Some finalData, p_count = length finalData\<rparr>, st')))"

text \<open>
  What a pattern accepts, stated without the search: \<open>accepts ic r st st'\<close> holds when
  \<open>r\<close> can take the matcher from state \<open>st\<close> to state \<open>st'\<close>. The matcher \<open>rx\<close>
  succeeds exactly when some accepted end state makes its continuation succeed
  (\<open>rx_sound\<close>, \<open>rx_complete\<close>).
\<close>

fun accepts :: "bool \<Rightarrow> re \<Rightarrow> mstate \<Rightarrow> mstate \<Rightarrow> bool" where
  "accepts ic (Lit p) (b, s, g) st' =
     (length p \<le> length s \<and> map (canon ic) (take (length p) s) = map (canon ic) p
      \<and> st' = (rev (take (length p) s) @ b, drop (length p) s, g))"
| "accepts ic (One a) (b, s, g) st' = (\<exists>x xs. s = x # xs \<and> atom_ok ic a x \<and> st' = (x # b, xs, g))"
| "accepts ic (Star a) (b, s, g) st' =
     (\<exists>n\<le>length s. list_all (atom_ok ic a) (take n s) \<and> st' = (rev (take n s) @ b, drop n s, g))"
| "accepts ic (Plus a) (b, s, g) st' =
     (\<exists>n\<le>length s. 0 < n \<and> list_all (atom_ok ic a) (take n s)
        \<and> st' = (rev (take n s) @ b, drop n s, g))"
| "accepts ic (LazyStar a) (b, s, g) st' =
     (\<exists>n\<le>length s. list_all (atom_ok ic a) (take n s) \<and> st' = (rev (take n s) @ b, drop n s, g))"
| "accepts ic (Opt r) st st' = (accepts ic r st st' \<or> st' = st)"
| "accepts ic (Seq r1 r2) st st' = (\<exists>m. accepts ic r1 st m \<and> accepts ic r2 m st')"
| "accepts ic (Alt r1 r2) st st' = (accepts ic r1 st st' \<or> accepts ic r2 st st')"
| "accepts ic (Group n r) (b, s, g) st' =
     (\<exists>b' s' g'. accepts ic r (b, s, g) (b', s', g')
        \<and> st' = (b', s', g'(n \<mapsto> take (length s - length s') s)))"
| "accepts ic Eol (b, s, g) st' = (s = [] \<and> st' = (b, s, g))"
| "accepts ic WordB (b, s, g) st' = (word_here b \<noteq> word_here s \<and> st' = (b, s, g))"

text \<open>The capture groups that a pattern can set.\<close>

fun groups_of :: "re \<Rightarrow> nat set" where
  "groups_of (Opt r) = groups_of r"
| "groups_of (Seq r1 r2) = groups_of r1 \<union> groups_of r2"
| "groups_of (Alt r1 r2) = groups_of r1 \<union> groups_of r2"
| "groups_of (Group n r) = insert n (groups_of r)"
| "groups_of r = {}"

text \<open>
  The shape of the calls that reach the store. A column is a bare word. A typed
  predicate is one of the six comparison operators on a column with a string or a
  number as its value. A structured query opens with \<^verbatim>\<open>from\<close> and \<^verbatim>\<open>select\<close>,
  continues with typed predicates only, and ends with at most one \<^verbatim>\<open>order\<close> and at
  most one \<^verbatim>\<open>limit\<close> with a number; its table is a bare word too.
\<close>

definition is_column :: "string \<Rightarrow> bool" where
  "is_column c = (c \<noteq> [] \<and> list_all isWord c)"

fun typed_predicate :: "call \<Rightarrow> bool" where
  "typed_predicate (Eq c (JStr v)) = is_column c"
| "typed_predicate (Eq c (JNum v)) = is_column c"
| "typed_predicate (Lt c (JNum v)) = is_column c"
| "typed_predicate (Gt c (JNum v)) = is_column c"
| "typed_predicate (Gte c (JNum v)) = is_column c"
| "typed_predicate (Lte c (JNum v)) = is_column c"
| "typed_predicate (Ilike c (JStr v)) = is_column c"
| "typed_predicate c = False"



text \<open>
  A FROM target, in the words of the specification: the keyword FROM in any case,
  then white space, then a word character, the first character of the table name.
\<close>

definition from_target :: "string \<Rightarrow> bool" where
  "from_target s =
     (\<exists>pre kw ws w post. s = pre @ kw @ ws @ w # post \<and> toUpperCase kw = ''FROM''
        \<and> ws \<noteq> [] \<and> list_all isSpace ws \<and> isWord w)"

text \<open>
  A store and a serialisation for the concrete runs: the store answers every query
  with the same three rows, two of them equal.
\<close>

definition rows0 :: "row list" where
  "rows0 = [[(''category'', JStr ''books'')], [(''category'', JStr ''books'')],
            [(''category'', JStr ''toys'')]]"

definition store0 :: store where
  "store0 = \<lparr>respond = (\<lambda>q. \<lparr>resp_data = Some rows0, resp_error = None, resp_count = Some 3\<rparr>),
             received = []\<rparr>"

fun text_of :: "jsval \<Rightarrow> string" where
  "text_of (JStr s) = s"
| "text_of v = []"

definition stringify0 :: "row \<Rightarrow> string" where
  "stringify0 item = concat (map (\<lambda>(k, v). k @ '':'' @ text_of v @ '';'') item)"

definition stmt_created :: string where
  "stmt_created = ''SELECT id, name, created_date FROM items''"

text \<open>
  Deduplication in the words of the specification: the first occurrence of each row
  stays, later equal rows go, and the order of the rows that stay is kept.
\<close>

fun keep_first :: "'a list \<Rightarrow> 'a list" where
  "keep_first [] = []"
| "keep_first (x # xs) = x # keep_first (filter (\<lambda>y. y \<noteq> x) xs)"

definition stmt_distinct :: string where
  "stmt_distinct = ''SELECT DISTINCT category FROM items LIMIT 100;''"

definition stmt_count :: string where
  "stmt_count = ''SELECT COUNT(*) FROM items WHERE price < 50''"

definition stmt_group :: string where
  "stmt_group = ''SELECT category, COUNT(*) FROM items GROUP BY category''"

text \<open>
  The key under which a row is counted: \<^verbatim>\<open>categoryCounts[item.category]\<close> converts
  the category to a property name.
\<close>

definition category_keys :: "(jsval \<Rightarrow> string) \<Rightarrow> row list \<Rightarrow> string list" where
  "category_keys toStr rows = map (\<lambda>item. toStr (get_prop item ''category'')) rows"

text \<open>The query of the GROUP BY branch and of the SELECT DISTINCT CATEGORY branch.\<close>

definition categories_query :: query where
  "categories_query = [From ''items'', Select ''category'' None, NotIs ''category'' JNull]"

text \<open>\<^verbatim>\<open>query.replace(/\s+/g, ' ').trim().toUpperCase()\<close>, the text the branches test.\<close>

definition upperQuery_of :: "string \<Rightarrow> string" where
  "upperQuery_of s = toUpperCase (trim (replaceAll False (Plus ASpace) '' '' s))"


definition qfailure :: "string \<Rightarrow> jsval \<Rightarrow> jsval list \<Rightarrow> qresult" where
  "qfailure m q ps =
     \<lparr>success = False, data = None, count = None, error = Some m, query = q, params = ps\<rparr>"





text \<open>
  \<^verbatim>\<open>replace(/\s+/g, ' ')\<close> read as a scan: every maximal run of white space becomes
  one blank. \<open>in_run\<close> tells whether the previous character was white space.
  \<open>replaceAll_spaces\<close> below shows that the matcher computes this.
\<close>

fun collapse_ws :: "bool \<Rightarrow> string \<Rightarrow> string" where
  "collapse_ws in_run [] = []"
| "collapse_ws in_run (x # xs) =
     (if isSpace x then (if in_run then collapse_ws True xs else CHR '' '' # collapse_ws True xs)
      else x # collapse_ws False xs)"

text \<open>
  A keyword as a whole word, in the words of the specification: an occurrence of the
  keyword in any case with no word character directly before or after it. The
  blocked keywords are the nine of the list and the two of the additional check.
\<close>

definition contains_word :: "string \<Rightarrow> string \<Rightarrow> bool" where
  "contains_word kw s =
     (\<exists>pre mid post. s = pre @ mid @ post \<and> toUpperCase mid = kw
        \<and> \<not> word_here (rev pre) \<and> \<not> word_here post)"

definition blockedKeywords :: "string list" where
  "blockedKeywords = dangerousKeywords @ [''INTO'', ''VALUES'']"

section \<open>Properties\<close>

lemmas char_defs = isSpace_def isWord_def isDigit_def canon_def
lemmas re_defs = str_match_def re_test_def str_replace_def matchAll_def replaceAll_def grp_def
lemmas str_defs = trim_def toUpperCase_def startsWith_def split_ws_def

subsection \<open>The regular SELECT path\<close>

lemma parse_select_path:
  assumes "str_match True from_re (cleanSQL_of sql) = Some g"
    and "\<not> str_includes (toUpperCase (cleanSQL_of sql)) ''COUNT(*)''"
    and "selectList (cleanSQL_of sql) = (cols, dis)"
  shows "parseAndExecuteSQL J st sql =
         select_outcome J dis st
           (applyLimit (applyOrderBy (applyWhereClause [From (grp g 1), Select cols None]
              (cleanSQL_of sql)) (cleanSQL_of sql)) (cleanSQL_of sql))"
  using assms
  by (simp add: parseAndExecuteSQL_def select_outcome_def Let_def)

lemma received_select_outcome: "received (snd (select_outcome J dis st q)) = received st @ [q]"
  by (simp add: select_outcome_def await_def Let_def split: option.splits)

subsection \<open>The two example statements\<close>

lemma single_clean: "cleanSQL_of stmt_single = stmt_single"
  by (simp add: cleanSQL_of_def stmt_single_def char_defs re_defs str_defs)

lemma single_from: "str_match True from_re stmt_single = Some (Map.empty(1 \<mapsto> ''items''))"
  by (simp add: from_re_def stmt_single_def char_defs re_defs)

lemma single_nocount: "\<not> str_includes (toUpperCase stmt_single) ''COUNT(*)''"
  by (simp add: stmt_single_def str_defs)

lemma single_select: "selectList stmt_single = (''*'', False)"
  by (simp add: selectList_def select_re_def stmt_single_def char_defs re_defs str_defs)

lemma single_where: "applyWhereClause q stmt_single = q @ [Lt ''price'' (JNum 50)]"
  by (simp add: applyWhereClause_def compare_re_def number_re_def parseFloat_def parseInt_def
      digit_val_def stmt_single_def char_defs re_defs str_defs)

lemma single_order: "applyOrderBy q stmt_single = q"
  by (simp add: applyOrderBy_def stmt_single_def char_defs re_defs str_defs)

lemma single_limit: "applyLimit q stmt_single = q @ [Limit (JNum 100)]"
  by (simp add: applyLimit_def parseInt_def digit_val_def stmt_single_def char_defs re_defs str_defs)

lemma multi_clean: "cleanSQL_of stmt_multi = stmt_multi_clean"
  by (simp add: cleanSQL_of_def stmt_multi_def stmt_multi_clean_def char_defs re_defs str_defs)

lemma multi_from: "str_match True from_re stmt_multi_clean = Some (Map.empty(1 \<mapsto> ''items''))"
  by (simp add: from_re_def stmt_multi_clean_def char_defs re_defs)

lemma multi_nocount: "\<not> str_includes (toUpperCase stmt_multi_clean) ''COUNT(*)''"
  by (simp add: stmt_multi_clean_def str_defs)

lemma multi_select: "selectList stmt_multi_clean = (''*'', False)"
  by (simp add: selectList_def select_re_def stmt_multi_clean_def char_defs re_defs str_defs)

lemma multi_where: "applyWhereClause q stmt_multi_clean = q @ [Lt ''price'' (JNum 50)]"
  by (simp add: applyWhereClause_def compare_re_def number_re_def parseFloat_def parseInt_def
      digit_val_def stmt_multi_clean_def char_defs re_defs str_defs)

lemma multi_order: "applyOrderBy q stmt_multi_clean = q"
  by (simp add: applyOrderBy_def stmt_multi_clean_def char_defs re_defs str_defs)

lemma multi_limit: "applyLimit q stmt_multi_clean = q @ [Limit (JNum 100)]"
  by (simp add: applyLimit_def parseInt_def digit_val_def stmt_multi_clean_def char_defs re_defs
      str_defs)

lemma single_parsed:
  "parseAndExecuteSQL J st stmt_single =
     select_outcome J False st
       [From ''items'', Select ''*'' None, Lt ''price'' (JNum 50), Limit (JNum 100)]"
  using parse_select_path[of stmt_single "Map.empty(1 \<mapsto> ''items'')" "''*''" False J st]
  by (simp add: single_clean single_from single_nocount single_select single_where single_order
        single_limit grp_def)

lemma multi_parsed:
  "parseAndExecuteSQL J st stmt_multi =
     select_outcome J False st
       [From ''items'', Select ''*'' None, Lt ''price'' (JNum 50), Limit (JNum 100)]"
  using parse_select_path[of stmt_multi "Map.empty(1 \<mapsto> ''items'')" "''*''" False J st]
  by (simp add: multi_clean multi_from multi_nocount multi_select multi_where multi_order
        multi_limit grp_def)

text \<open>
  C5. Parsing \<^verbatim>\<open>SELECT * FROM items WHERE price < 50 LIMIT 100\<close> gives the table
  \<^verbatim>\<open>items\<close>, the projection \<^verbatim>\<open>*\<close>, the single predicate \<^verbatim>\<open>price < 50\<close> and the
  limit 100: for every store, the one query that \<^verbatim>\<open>parseAndExecuteSQL\<close> sends is
  \<^verbatim>\<open>from('items').select('*').lt('price', 50).limit(100)\<close>.
\<close>

theorem single_statement_query:
  "received (snd (parseAndExecuteSQL stringify st stmt_single)) =
     received st @
       [[From ''items'', Select ''*'' None, Lt ''price'' (JNum 50), Limit (JNum 100)]]"
  by (simp add: single_parsed received_select_outcome)

subsection \<open>Statements written over several lines\<close>

lemma multi_line_same_as_single:
  "parseAndExecuteSQL stringify st stmt_multi = parseAndExecuteSQL stringify st stmt_single"
  by (simp add: single_parsed multi_parsed)

lemma line_clean: "cleanSQL_of stmt_distinct_line = stmt_distinct_line"
  by (simp add: cleanSQL_of_def stmt_distinct_line_def char_defs re_defs str_defs)

lemma line_from: "str_match True from_re stmt_distinct_line = Some (Map.empty(1 \<mapsto> ''items''))"
  by (simp add: from_re_def stmt_distinct_line_def char_defs re_defs)

lemma line_nocount: "\<not> str_includes (toUpperCase stmt_distinct_line) ''COUNT(*)''"
  by (simp add: stmt_distinct_line_def str_defs)

lemma line_select: "selectList stmt_distinct_line = (''category'', True)"
  by (simp add: selectList_def select_re_def stmt_distinct_line_def char_defs re_defs str_defs)

lemma line_where: "applyWhereClause q stmt_distinct_line = q"
  by (simp add: applyWhereClause_def stmt_distinct_line_def char_defs re_defs str_defs)

lemma line_order: "applyOrderBy q stmt_distinct_line = q"
  by (simp add: applyOrderBy_def stmt_distinct_line_def char_defs re_defs str_defs)

lemma line_limit: "applyLimit q stmt_distinct_line = q"
  by (simp add: applyLimit_def stmt_distinct_line_def char_defs re_defs str_defs)

lemma line_parsed:
  "parseAndExecuteSQL J st stmt_distinct_line =
     select_outcome J True st [From ''items'', Select ''category'' None]"
  using parse_select_path[of stmt_distinct_line "Map.empty(1 \<mapsto> ''items'')"
          "''category''" True J st]
  by (simp add: line_clean line_from line_nocount line_select line_where line_order
        line_limit grp_def)

lemma lines_clean: "cleanSQL_of stmt_distinct_lines = stmt_distinct_lines"
  by (simp add: cleanSQL_of_def stmt_distinct_lines_def char_defs re_defs str_defs)

lemma lines_from: "str_match True from_re stmt_distinct_lines = Some (Map.empty(1 \<mapsto> ''items''))"
  by (simp add: from_re_def stmt_distinct_lines_def char_defs re_defs)

lemma lines_nocount: "\<not> str_includes (toUpperCase stmt_distinct_lines) ''COUNT(*)''"
  by (simp add: stmt_distinct_lines_def str_defs)

text \<open>
  The projection pattern reaches across the line break, but the test for DISTINCT
  that follows asks for a blank after the keyword.
\<close>

lemma lines_select: "selectList stmt_distinct_lines = (''DISTINCT\<newline>category'', False)"
  by (simp add: selectList_def select_re_def stmt_distinct_lines_def char_defs re_defs str_defs)

lemma lines_where: "applyWhereClause q stmt_distinct_lines = q"
  by (simp add: applyWhereClause_def stmt_distinct_lines_def char_defs re_defs str_defs)

lemma lines_order: "applyOrderBy q stmt_distinct_lines = q"
  by (simp add: applyOrderBy_def stmt_distinct_lines_def char_defs re_defs str_defs)

lemma lines_limit: "applyLimit q stmt_distinct_lines = q"
  by (simp add: applyLimit_def stmt_distinct_lines_def char_defs re_defs str_defs)

lemma lines_parsed:
  "parseAndExecuteSQL J st stmt_distinct_lines =
     select_outcome J False st [From ''items'', Select ''DISTINCT\<newline>category'' None]"
  using parse_select_path[of stmt_distinct_lines "Map.empty(1 \<mapsto> ''items'')"
          "''DISTINCT\<newline>category''" False J st]
  by (simp add: lines_clean lines_from lines_nocount lines_select lines_where lines_order
        lines_limit grp_def)

text \<open>
  The ORDER BY pattern has a blank between its two words: the ordering is found on
  one line and lost when the line breaks there.
\<close>

lemma order_line: "applyOrderBy q stmt_order_line = q @ [Order ''price'' True]"
  by (simp add: applyOrderBy_def stmt_order_line_def char_defs re_defs str_defs)

lemma order_lines: "applyOrderBy q stmt_order_lines = q"
  by (simp add: applyOrderBy_def stmt_order_lines_def char_defs re_defs str_defs)

text \<open>
  C6 fails in \<^verbatim>\<open>parseAndExecuteSQL\<close>. The statement of the example, written over
  four lines and closed by a semicolon, is sent as
  \<^verbatim>\<open>from('items').select('*').lt('price', 50).limit(100)\<close> and gives the result
  of the one-line statement. But \<^verbatim>\<open>SELECT DISTINCT category FROM items\<close> is sent as
  \<^verbatim>\<open>select('category')\<close> and its rows are deduplicated, while the same statement
  with line breaks after DISTINCT and before FROM is sent with the projection
  \<^verbatim>\<open>DISTINCT\ncategory\<close> and its rows come back with their duplicates.
\<close>

theorem newline_after_distinct:
  "received (snd (parseAndExecuteSQL stringify st stmt_multi)) =
     received st @ [[From ''items'', Select ''*'' None, Lt ''price'' (JNum 50), Limit (JNum 100)]]
   \<and> parseAndExecuteSQL stringify st stmt_multi = parseAndExecuteSQL stringify st stmt_single
   \<and> received (snd (parseAndExecuteSQL stringify st stmt_distinct_line)) =
       received st @ [[From ''items'', Select ''category'' None]]
   \<and> received (snd (parseAndExecuteSQL stringify st stmt_distinct_lines)) =
       received st @ [[From ''items'', Select ''DISTINCT\<newline>category'' None]]
   \<and> fst (parseAndExecuteSQL stringify0 store0 stmt_distinct_line) =
       Inr \<lparr>p_data = Some [[(''category'', JStr ''books'')], [(''category'', JStr ''toys'')]],
            p_count = 2\<rparr>
   \<and> fst (parseAndExecuteSQL stringify0 store0 stmt_distinct_lines) =
       Inr \<lparr>p_data = Some [[(''category'', JStr ''books'')], [(''category'', JStr ''books'')],
                          [(''category'', JStr ''toys'')]],
            p_count = 3\<rparr>"
  by (simp add: multi_parsed single_parsed line_parsed lines_parsed received_select_outcome)
     (simp add: select_outcome_def await_def store0_def rows0_def stringify0_def Let_def)

subsection \<open>Small facts about the string helpers\<close>

lemma startsWith_includes: "startsWith s p \<Longrightarrow> str_includes s p"
  by (cases s) (auto simp: startsWith_def)

lemma split_on_nonempty: "split_on d s \<noteq> []"
  by (induction s) (auto split: list.splits)

lemma split_ws_nonempty: "split_ws s \<noteq> []"
proof -
  have "split_ws_acc cur insp s \<noteq> []" for cur insp
    by (induction s arbitrary: cur insp) auto
  then show ?thesis by (simp add: split_ws_def)
qed

lemma findIndex_from_bound: "findIndex_from P k xs = Some i \<Longrightarrow> k \<le> i \<and> i < k + length xs"
  by (induction xs arbitrary: k) (fastforce split: if_splits)+

lemma param_index_bound: "param_index cleanQuery ps = Some i \<Longrightarrow> i < length ps"
  using findIndex_from_bound[of _ 0 ps i] by (simp add: param_index_def)

subsection \<open>Two more statements of the specification\<close>

lemma rating_where:
  "applyWhereClause q ''SELECT * FROM items WHERE rating > 4.0'' = q @ [Gt ''rating'' (JNum 4)]"
  by (simp add: applyWhereClause_def compare_re_def number_re_def parseFloat_def parseInt_def
      digit_val_def char_defs re_defs str_defs)

lemma between_where:
  "applyWhereClause q ''SELECT * FROM items WHERE price BETWEEN 10 AND 50'' =
     q @ [Gte ''price'' (JNum 10), Lte ''price'' (JNum 50)]"
  by (simp add: applyWhereClause_def compare_re_def number_re_def parseFloat_def parseInt_def
      digit_val_def char_defs re_defs str_defs)

subsection \<open>The matcher and what a pattern accepts\<close>

lemma lit_step_Some:
  "lit_step ic p b s = Some (b', s') \<Longrightarrow>
     length p \<le> length s \<and> map (canon ic) (take (length p) s) = map (canon ic) p
     \<and> b' = rev (take (length p) s) @ b \<and> s' = drop (length p) s"
  by (induction ic p b s rule: lit_step.induct) (auto split: if_splits)

lemma lit_step_complete:
  "length p \<le> length s \<Longrightarrow> map (canon ic) (take (length p) s) = map (canon ic) p \<Longrightarrow>
     lit_step ic p b s = Some (rev (take (length p) s) @ b, drop (length p) s)"
  by (induction ic p b s rule: lit_step.induct) auto

lemma star_sound:
  "rx ic (Star a) k (b, s, g) = Some res \<Longrightarrow>
     \<exists>n\<le>length s. list_all (atom_ok ic a) (take n s) \<and> k (rev (take n s) @ b, drop n s, g) = Some res"
proof (induction s arbitrary: b)
  case Nil
  then show ?case by simp
next
  case (Cons x xs)
  show ?case
  proof (cases "atom_ok ic a x")
    case False
    with Cons.prems have "k (b, x # xs, g) = Some res" by simp
    then show ?thesis by (intro exI[of _ 0]) simp
  next
    case True
    show ?thesis
    proof (cases "rx ic (Star a) k (x # b, xs, g)")
      case None
      with Cons.prems True have "k (b, x # xs, g) = Some res" by simp
      then show ?thesis by (intro exI[of _ 0]) simp
    next
      case (Some r)
      with Cons.prems True have "rx ic (Star a) k (x # b, xs, g) = Some res" by simp
      from Cons.IH[OF this] obtain n where n: "n \<le> length xs" "list_all (atom_ok ic a) (take n xs)"
        "k (rev (take n xs) @ x # b, drop n xs, g) = Some res" by auto
      then show ?thesis using True by (intro exI[of _ "Suc n"]) simp
    qed
  qed
qed

lemma lazy_sound:
  "rx ic (LazyStar a) k (b, s, g) = Some res \<Longrightarrow>
     \<exists>n\<le>length s. list_all (atom_ok ic a) (take n s) \<and> k (rev (take n s) @ b, drop n s, g) = Some res"
proof (induction s arbitrary: b)
  case Nil
  then show ?case by simp
next
  case (Cons x xs)
  show ?case
  proof (cases "k (b, x # xs, g)")
    case (Some r)
    with Cons.prems have "k (b, x # xs, g) = Some res" by simp
    then show ?thesis by (intro exI[of _ 0]) simp
  next
    case None
    with Cons.prems have ok: "atom_ok ic a x" and "rx ic (LazyStar a) k (x # b, xs, g) = Some res"
      by (auto split: if_splits)
    from Cons.IH[OF this(2)] obtain n where n: "n \<le> length xs" "list_all (atom_ok ic a) (take n xs)"
        "k (rev (take n xs) @ x # b, drop n xs, g) = Some res" by auto
    then show ?thesis using ok by (intro exI[of _ "Suc n"]) simp
  qed
qed

lemma rx_sound:
  "rx ic r k st = Some res \<Longrightarrow> \<exists>st'. accepts ic r st st' \<and> k st' = Some res"
proof (induction r arbitrary: k st res)
  case (Lit p)
  obtain b s g where st: "st = (b, s, g)" by (cases st)
  with Lit obtain b' s' where "lit_step ic p b s = Some (b', s')" "k (b', s', g) = Some res"
    by (auto split: option.splits)
  with lit_step_Some[OF this(1)] st show ?case by auto
next
  case (One a)
  obtain b s g where st: "st = (b, s, g)" by (cases st)
  with One show ?case by (cases s) (auto split: if_splits)
next
  case (Star a)
  obtain b s g where st: "st = (b, s, g)" by (cases st)
  with Star star_sound[of ic a k b s g res] show ?case by auto
next
  case (Plus a)
  obtain b s g where st: "st = (b, s, g)" by (cases st)
  show ?case
  proof (cases s)
    case Nil
    with Plus st show ?thesis by simp
  next
    case (Cons x xs)
    with Plus st have ok: "atom_ok ic a x" and "rx ic (Star a) k (x # b, xs, g) = Some res"
      by (auto split: if_splits)
    from star_sound[OF this(2)] obtain n where n: "n \<le> length xs" "list_all (atom_ok ic a) (take n xs)"
        "k (rev (take n xs) @ x # b, drop n xs, g) = Some res" by auto
    have "accepts ic (Plus a) st (rev (take (Suc n) s) @ b, drop (Suc n) s, g)"
      using n ok st Cons by (simp, intro exI[of _ "Suc n"]) simp
    moreover have "k (rev (take (Suc n) s) @ b, drop (Suc n) s, g) = Some res"
      using n Cons by simp
    ultimately show ?thesis by blast
  qed
next
  case (LazyStar a)
  obtain b s g where st: "st = (b, s, g)" by (cases st)
  with LazyStar lazy_sound[of ic a k b s g res] show ?case by auto
next
  case (Opt r)
  show ?case
  proof (cases "rx ic r k st")
    case None
    with Opt.prems have "k st = Some res" by simp
    then show ?thesis by (intro exI[of _ st]) simp
  next
    case (Some x)
    with Opt.prems have "rx ic r k st = Some res" by simp
    from Opt.IH[OF this] obtain st' where "accepts ic r st st'" "k st' = Some res" by blast
    then have "accepts ic (Opt r) st st' \<and> k st' = Some res" by simp
    then show ?thesis by blast
  qed
next
  case (Seq r1 r2)
  from Seq.prems have "rx ic r1 (\<lambda>st'. rx ic r2 k st') st = Some res" by simp
  from Seq.IH(1)[OF this] obtain m where m: "accepts ic r1 st m" "rx ic r2 k m = Some res" by auto
  from Seq.IH(2)[OF m(2)] obtain st' where "accepts ic r2 m st'" "k st' = Some res" by blast
  with m(1) have "accepts ic (Seq r1 r2) st st' \<and> k st' = Some res"
    unfolding accepts.simps by blast
  then show ?case by blast
next
  case (Alt r1 r2)
  show ?case
  proof (cases "rx ic r1 k st")
    case None
    with Alt.prems have "rx ic r2 k st = Some res" by simp
    from Alt.IH(2)[OF this] obtain st' where "accepts ic r2 st st'" "k st' = Some res" by blast
    then have "accepts ic (Alt r1 r2) st st' \<and> k st' = Some res" by simp
    then show ?thesis by blast
  next
    case (Some x)
    with Alt.prems have "rx ic r1 k st = Some res" by simp
    from Alt.IH(1)[OF this] obtain st' where "accepts ic r1 st st'" "k st' = Some res" by blast
    then have "accepts ic (Alt r1 r2) st st' \<and> k st' = Some res" by simp
    then show ?thesis by blast
  qed
next
  case (Group n r)
  obtain b s g where st: "st = (b, s, g)" by (cases st)
  with Group.prems have
    "rx ic r (\<lambda>(b', s', g'). k (b', s', g'(n \<mapsto> take (length s - length s') s))) (b, s, g) = Some res"
    by simp
  from Group.IH[OF this] obtain m where m: "accepts ic r (b, s, g) m"
    "(\<lambda>(b', s', g'). k (b', s', g'(n \<mapsto> take (length s - length s') s))) m = Some res" by blast
  obtain b' s' g' where m': "m = (b', s', g')" by (cases m)
  with m st have "accepts ic (Group n r) st (b', s', g'(n \<mapsto> take (length s - length s') s))
     \<and> k (b', s', g'(n \<mapsto> take (length s - length s') s)) = Some res" by auto
  then show ?case by blast
next
  case Eol
  then show ?case by (cases st) (auto split: if_splits)
next
  case WordB
  then show ?case by (cases st) (auto split: if_splits)
qed

lemma star_complete:
  "n \<le> length s \<Longrightarrow> list_all (atom_ok ic a) (take n s) \<Longrightarrow>
   k (rev (take n s) @ b, drop n s, g) \<noteq> None \<Longrightarrow> rx ic (Star a) k (b, s, g) \<noteq> None"
proof (induction s arbitrary: b n)
  case Nil
  then show ?case by simp
next
  case (Cons x xs)
  show ?case
  proof (cases n)
    case 0
    with Cons.prems show ?thesis by (auto split: option.splits)
  next
    case (Suc m)
    with Cons.prems have "atom_ok ic a x" "m \<le> length xs" "list_all (atom_ok ic a) (take m xs)"
      "k (rev (take m xs) @ x # b, drop m xs, g) \<noteq> None" by auto
    from Cons.IH[OF this(2,3,4)] this(1) show ?thesis by (auto split: option.splits)
  qed
qed

lemma lazy_complete:
  "n \<le> length s \<Longrightarrow> list_all (atom_ok ic a) (take n s) \<Longrightarrow>
   k (rev (take n s) @ b, drop n s, g) \<noteq> None \<Longrightarrow> rx ic (LazyStar a) k (b, s, g) \<noteq> None"
proof (induction s arbitrary: b n)
  case Nil
  then show ?case by simp
next
  case (Cons x xs)
  show ?case
  proof (cases n)
    case 0
    with Cons.prems show ?thesis by (auto split: option.splits)
  next
    case (Suc m)
    with Cons.prems have "atom_ok ic a x" "m \<le> length xs" "list_all (atom_ok ic a) (take m xs)"
      "k (rev (take m xs) @ x # b, drop m xs, g) \<noteq> None" by auto
    from Cons.IH[OF this(2,3,4)] this(1) show ?thesis by (auto split: option.splits)
  qed
qed

lemma rx_complete:
  "accepts ic r st st' \<Longrightarrow> k st' \<noteq> None \<Longrightarrow> rx ic r k st \<noteq> None"
proof (induction r arbitrary: k st st')
  case (Lit p)
  then show ?case by (cases st) (auto simp: lit_step_complete)
next
  case (One a)
  then show ?case by (cases st) auto
next
  case (Star a)
  then show ?case by (cases st) (auto dest: star_complete)
next
  case (Plus a)
  obtain b s g where st: "st = (b, s, g)" by (cases st)
  with Plus obtain n where n: "n \<le> length s" "0 < n" "list_all (atom_ok ic a) (take n s)"
     "k (rev (take n s) @ b, drop n s, g) \<noteq> None" by auto
  then obtain x xs m where s: "s = x # xs" "n = Suc m" by (cases s; cases n) auto
  with n have "atom_ok ic a x" "m \<le> length xs" "list_all (atom_ok ic a) (take m xs)"
      "k (rev (take m xs) @ x # b, drop m xs, g) \<noteq> None" by auto
  from star_complete[of m xs ic a k "x # b" g] this st s show ?case by auto
next
  case (LazyStar a)
  then show ?case by (cases st) (auto dest: lazy_complete)
next
  case (Opt r)
  from Opt.prems(1) have "accepts ic r st st' \<or> st' = st" by simp
  then show ?case
  proof
    assume "accepts ic r st st'"
    with Opt.IH[of st st' k] Opt.prems(2) show ?thesis by (cases "rx ic r k st") auto
  next
    assume "st' = st"
    with Opt.prems(2) show ?thesis by (cases "rx ic r k st") auto
  qed
next
  case (Seq r1 r2)
  from Seq.prems obtain m where m: "accepts ic r1 st m" "accepts ic r2 m st'" by auto
  from Seq.IH(2)[of m st' k] m(2) Seq.prems(2) have "rx ic r2 k m \<noteq> None" by blast
  with Seq.IH(1)[of st m "\<lambda>st'. rx ic r2 k st'"] m(1) show ?case by simp
next
  case (Alt r1 r2)
  from Alt.prems(1) have "accepts ic r1 st st' \<or> accepts ic r2 st st'" by simp
  then show ?case
  proof
    assume "accepts ic r1 st st'"
    with Alt.IH(1)[of st st' k] Alt.prems(2) show ?thesis by (cases "rx ic r1 k st") auto
  next
    assume "accepts ic r2 st st'"
    with Alt.IH(2)[of st st' k] Alt.prems(2) show ?thesis by (cases "rx ic r1 k st") auto
  qed
next
  case (Group n r)
  obtain b s g where st: "st = (b, s, g)" by (cases st)
  with Group.prems obtain b' s' g' where r: "accepts ic r (b, s, g) (b', s', g')"
    "st' = (b', s', g'(n \<mapsto> take (length s - length s') s))" by auto
  with Group.IH[of "(b, s, g)" "(b', s', g')"
      "\<lambda>(b', s', g'). k (b', s', g'(n \<mapsto> take (length s - length s') s))"]
    Group.prems(2) st show ?case by simp
next
  case Eol
  then show ?case by (cases st) auto
next
  case WordB
  then show ?case by (cases st) auto
qed

lemma rx_search_Some:
  "rx_search ic r b s = Some (b0, e) \<Longrightarrow>
     \<exists>pre post. s = pre @ post \<and> b0 = rev pre @ b \<and> rx ic r Some (b0, post, Map.empty) = Some e"
proof (induction s arbitrary: b)
  case Nil
  then show ?case by (auto split: option.splits)
next
  case (Cons x xs)
  show ?case
  proof (cases "rx ic r Some (b, x # xs, Map.empty)")
    case (Some e')
    with Cons.prems have "b0 = b" "e' = e" by auto
    with Some show ?thesis by (intro exI[of _ "[]"] exI[of _ "x # xs"]) simp
  next
    case None
    with Cons.prems have "rx_search ic r (x # b) xs = Some (b0, e)" by simp
    from Cons.IH[OF this] obtain pre post where
      "xs = pre @ post" "b0 = rev pre @ x # b" "rx ic r Some (b0, post, Map.empty) = Some e" by blast
    then show ?thesis by (intro exI[of _ "x # pre"] exI[of _ post]) simp
  qed
qed

lemma rx_search_complete:
  "rx ic r Some (rev pre @ b, post, Map.empty) \<noteq> None \<Longrightarrow> rx_search ic r b (pre @ post) \<noteq> None"
proof (induction pre arbitrary: b)
  case Nil
  then show ?case by (cases post) (auto split: option.splits)
next
  case (Cons x pre)
  from Cons.IH[of "x # b"] Cons.prems show ?case by (auto split: option.splits)
qed

lemma matchAll_scan_mem:
  "g \<in> set (matchAll_scan ic r skip b s) \<Longrightarrow>
     \<exists>b0 s0 b1 s1. rx ic r Some (b0, s0, Map.empty) = Some (b1, s1, g)"
proof (induction s arbitrary: skip b)
  case Nil
  then obtain b1 s1 where "rx ic r Some (b, [], Map.empty) = Some (b1, s1, g)"
    by (cases "rx ic r Some (b, [], Map.empty)") (auto split: if_splits)
  then show ?case by blast
next
  case (Cons x xs)
  show ?case
  proof (cases "0 < skip")
    case True
    with Cons.prems Cons.IH show ?thesis by auto
  next
    case False
    show ?thesis
    proof (cases "rx ic r Some (b, x # xs, Map.empty)")
      case None
      with False Cons.prems Cons.IH show ?thesis by auto
    next
      case (Some e)
      obtain b1 s1 g1 where e: "e = (b1, s1, g1)" by (cases e)
      with Some False Cons.prems
      have "g = g1 \<or> g \<in> set (matchAll_scan ic r (length b1 - length b - 1) (x # b) xs)" by auto
      then show ?thesis
      proof
        assume "g = g1"
        with Some e show ?thesis by blast
      next
        assume "g \<in> set (matchAll_scan ic r (length b1 - length b - 1) (x # b) xs)"
        from Cons.IH[OF this] show ?thesis .
      qed
    qed
  qed
qed

lemma rx_rel_groups:
  "accepts ic r (b, s, g) (b', s', g') \<Longrightarrow> n \<notin> groups_of r \<Longrightarrow> g' n = g n"
proof (induction r arbitrary: b s g b' s' g')
  case (Seq r1 r2)
  from Seq.prems(1) obtain m where m: "accepts ic r1 (b, s, g) m" "accepts ic r2 m (b', s', g')" by auto
  obtain b1 s1 g1 where "m = (b1, s1, g1)" by (cases m)
  with m Seq.IH(1)[of b s g b1 s1 g1] Seq.IH(2)[of b1 s1 g1 b' s' g'] Seq.prems(2) show ?case by auto
qed auto

lemma rx_rel_plus:
  "accepts ic (Plus a) (b, s, g) (b', s', g') \<Longrightarrow>
     g' = g \<and> take (length s - length s') s \<noteq> [] \<and> list_all (atom_ok ic a) (take (length s - length s') s)"
  by (auto simp: min_def)

lemma first_group_word:
  assumes "accepts ic (Seq (Group j (Plus AWord)) r') (b, s, g) (b', s', g')" and "j \<notin> groups_of r'"
  shows "\<exists>w. g' j = Some w \<and> is_column w"
proof -
  from assms(1) obtain m where m: "accepts ic (Group j (Plus AWord)) (b, s, g) m" "accepts ic r' m (b', s', g')"
    unfolding accepts.simps(7) by blast
  from m(1) obtain b1 s1 g1 where g1: "accepts ic (Plus AWord) (b, s, g) (b1, s1, g1)"
    "m = (b1, s1, g1(j \<mapsto> take (length s - length s1) s))" unfolding accepts.simps by blast
  from rx_rel_plus[OF g1(1)] have w: "is_column (take (length s - length s1) s)"
    by (auto simp: is_column_def list_all_iff)
  from rx_rel_groups[of ic r' b1 s1 _ b' s' g' j] m(2) g1(2) assms(2)
  have "g' j = Some (take (length s - length s1) s)" by simp
  with w show ?thesis by blast
qed

lemma rx_first_group_word:
  assumes "rx ic (Seq (Group j (Plus AWord)) r') Some (b, s, Map.empty) = Some (b', s', g')"
    and "j \<notin> groups_of r'"
  shows "is_column (grp g' j)"
proof -
  from rx_sound[OF assms(1)] have "accepts ic (Seq (Group j (Plus AWord)) r') (b, s, Map.empty) (b', s', g')"
    by auto
  from first_group_word[OF this assms(2)] show ?thesis by (auto simp: grp_def)
qed

lemma matchAll_first_group_word:
  assumes "m \<in> set (matchAll ic (Seq (Group j (Plus AWord)) r') s)" and "j \<notin> groups_of r'"
  shows "is_column (grp m j)"
proof -
  from matchAll_scan_mem[OF assms(1)[unfolded matchAll_def]] obtain b0 s0 b1 s1 where
    "rx ic (Seq (Group j (Plus AWord)) r') Some (b0, s0, Map.empty) = Some (b1, s1, m)" by blast
  from rx_first_group_word[OF this assms(2)] show ?thesis .
qed

lemma str_match_first_group_word:
  assumes "str_match ic (Seq (Group j (Plus AWord)) r') s = Some m" and "j \<notin> groups_of r'"
  shows "is_column (grp m j)"
proof -
  from assms(1) obtain b0 b1 s1 where "rx_search ic (Seq (Group j (Plus AWord)) r') [] s = Some (b0, b1, s1, m)"
    by (auto simp: str_match_def split: option.splits)
  from rx_search_Some[OF this] obtain post where
    "rx ic (Seq (Group j (Plus AWord)) r') Some (b0, post, Map.empty) = Some (b1, s1, m)" by blast
  from rx_first_group_word[OF this assms(2)] show ?thesis .
qed

lemma applyWhereClause_append: "applyWhereClause q sql = q @ applyWhereClause [] sql"
  by (simp add: applyWhereClause_def Let_def split: option.splits)

lemma compare_re_shape:
  "compare_re opr = Seq (Group 1 (Plus AWord)) (seqs [Star ASpace, Lit opr, Star ASpace, Group 2 number_re])"
  by (simp add: compare_re_def)

lemma applyWhereClause_typed: "list_all typed_predicate (applyWhereClause [] sql)"
  by (auto simp add: applyWhereClause_def Let_def list_all_iff compare_re_shape number_re_def
        matchAll_first_group_word str_match_first_group_word split: option.splits)

subsection \<open>Locating the table\<close>

lemma atom_ok_classes [simp]:
  "atom_ok ic ASpace = isSpace" "atom_ok ic AWord = isWord" "atom_ok ic ADigit = isDigit"
  by (rule ext, simp)+

lemma canon_True: "canon True = toUpperChar"
  by (rule ext) (simp add: canon_def)

lemma accepts_LitD:
  "accepts ic (Lit p) (b, s, g) st' \<Longrightarrow>
     \<exists>kw rest. s = kw @ rest \<and> map (canon ic) kw = map (canon ic) p \<and> st' = (rev kw @ b, rest, g)"
  by (auto intro!: exI[of _ "take (length p) s"] exI[of _ "drop (length p) s"])

lemma accepts_PlusD:
  "accepts ic (Plus a) (b, s, g) st' \<Longrightarrow>
     \<exists>ws rest. s = ws @ rest \<and> ws \<noteq> [] \<and> list_all (atom_ok ic a) ws \<and> st' = (rev ws @ b, rest, g)"
proof -
  assume "accepts ic (Plus a) (b, s, g) st'"
  then obtain n where n: "n \<le> length s" "0 < n" "list_all (atom_ok ic a) (take n s)"
    "st' = (rev (take n s) @ b, drop n s, g)" by auto
  then have "s = take n s @ drop n s \<and> take n s \<noteq> []" by auto
  with n show ?thesis by blast
qed

lemma accepts_GroupD:
  "accepts ic (Group n r) (b, s, g) st' \<Longrightarrow>
     \<exists>b' s' g'. accepts ic r (b, s, g) (b', s', g')
        \<and> st' = (b', s', g'(n \<mapsto> take (length s - length s') s))"
  by simp

lemma from_match_sound:
  assumes "str_match True from_re s = Some g"
  shows "from_target s"
proof -
  from assms obtain b0 b1 s1 where "rx_search True from_re [] s = Some (b0, b1, s1, g)"
    by (auto simp: str_match_def split: option.splits)
  from rx_search_Some[OF this] obtain pre post where sp: "s = pre @ post"
    and rx: "rx True from_re Some (b0, post, Map.empty) = Some (b1, s1, g)" by blast
  from rx_sound[OF rx] have "accepts True from_re (b0, post, Map.empty) (b1, s1, g)" by auto
  then obtain m1 m2 where m: "accepts True (Lit ''FROM'') (b0, post, Map.empty) m1"
    "accepts True (Plus ASpace) m1 m2" "accepts True (Group 1 (Plus AWord)) m2 (b1, s1, g)"
    unfolding from_re_def seqs.simps accepts.simps(7) by blast
  from accepts_LitD[OF m(1)] obtain kw r1 where kw: "post = kw @ r1"
    "map (canon True) kw = map (canon True) ''FROM''" "m1 = (rev kw @ b0, r1, Map.empty)" by blast
  from accepts_PlusD[OF m(2)[unfolded kw(3)]] obtain ws r2 where ws: "r1 = ws @ r2" "ws \<noteq> []"
    "list_all isSpace ws" "m2 = (rev ws @ rev kw @ b0, r2, Map.empty)" by auto
  from accepts_GroupD[OF m(3)[unfolded ws(4)]] obtain b' s' g' where
    "accepts True (Plus AWord) (rev ws @ rev kw @ b0, r2, Map.empty) (b', s', g')" by blast
  from accepts_PlusD[OF this] obtain wd r3 where wd: "r2 = wd @ r3" "wd \<noteq> []" "list_all isWord wd"
    by auto
  then obtain w wd' where w: "wd = w # wd'" "isWord w" by (cases wd) auto
  from sp kw(1) ws(1) wd(1) w(1) have "s = pre @ kw @ ws @ w # (wd' @ r3)" by simp
  moreover have "toUpperCase kw = ''FROM''" using kw(2) by (simp add: toUpperCase_def canon_True)
  ultimately show ?thesis using ws(2,3) w(2) unfolding from_target_def by blast
qed

lemma from_match_complete:
  assumes "from_target s"
  shows "str_match True from_re s \<noteq> None"
proof -
  from assms obtain pre kw ws w post where s: "s = pre @ kw @ ws @ w # post"
    and kw: "toUpperCase kw = ''FROM''" and ws: "ws \<noteq> []" "list_all isSpace ws" and w: "isWord w"
    unfolding from_target_def by blast
  from kw have len: "length kw = 4" by (auto simp: toUpperCase_def dest: arg_cong[of _ _ length])
  let ?st' = "(w # rev ws @ rev kw @ rev pre, post, Map.empty(1 \<mapsto> [w]))"
  have "accepts True (Plus ASpace) (rev kw @ rev pre, ws @ w # post, Map.empty)
          (rev ws @ rev kw @ rev pre, w # post, Map.empty)"
    unfolding accepts.simps using ws by (intro exI[of _ "length ws"]) simp
  moreover have "accepts True (Plus AWord) (rev ws @ rev kw @ rev pre, w # post, Map.empty)
          (w # rev ws @ rev kw @ rev pre, post, Map.empty)"
    unfolding accepts.simps using w by (intro exI[of _ "Suc 0"]) simp
  then have "accepts True (Group 1 (Plus AWord)) (rev ws @ rev kw @ rev pre, w # post, Map.empty) ?st'"
    unfolding accepts.simps(9)
    by (intro exI[of _ "w # rev ws @ rev kw @ rev pre"] exI[of _ post] exI[of _ Map.empty]) simp
  moreover have "accepts True (Lit ''FROM'') (rev pre, kw @ ws @ w # post, Map.empty)
          (rev kw @ rev pre, ws @ w # post, Map.empty)"
    using len kw by (simp add: toUpperCase_def canon_True)
  ultimately have "accepts True from_re (rev pre, kw @ ws @ w # post, Map.empty) ?st'"
    unfolding from_re_def seqs.simps accepts.simps(7) by blast
  from rx_complete[OF this, of Some] have "rx True from_re Some (rev pre @ [], kw @ ws @ w # post, Map.empty) \<noteq> None"
    by simp
  from rx_search_complete[OF this] s show ?thesis
    by (auto simp: str_match_def split: option.splits)
qed

lemma from_match_iff: "from_target s = (str_match True from_re s \<noteq> None)"
  using from_match_sound from_match_complete by blast




lemma from_match_table:
  assumes "str_match True from_re s = Some g"
  shows "is_column (grp g 1)"
proof -
  from assms obtain b0 b1 s1 where "rx_search True from_re [] s = Some (b0, b1, s1, g)"
    by (auto simp: str_match_def split: option.splits)
  from rx_search_Some[OF this] obtain pre post where
    rx: "rx True from_re Some (b0, post, Map.empty) = Some (b1, s1, g)" by blast
  from rx_sound[OF rx] have "accepts True from_re (b0, post, Map.empty) (b1, s1, g)" by auto
  then obtain m2 where "accepts True (Group 1 (Plus AWord)) m2 (b1, s1, g)"
    unfolding from_re_def seqs.simps accepts.simps(7) by blast
  moreover obtain b2 s2 g2 where "m2 = (b2, s2, g2)" by (cases m2)
  ultimately obtain b' s' g' where a: "accepts True (Plus AWord) (b2, s2, g2) (b', s', g')"
    and g: "(b1, s1, g) = (b', s', g'(1 \<mapsto> take (length s2 - length s') s2))"
    using accepts_GroupD by blast
  from rx_rel_plus[OF a] g show ?thesis by (auto simp: grp_def is_column_def)
qed

subsection \<open>What reaches the store\<close>









subsection \<open>White space\<close>

lemma star_greedy:
  "rx ic (Star a) Some (b, s, g) =
     Some (rev (takeWhile (atom_ok ic a) s) @ b, dropWhile (atom_ok ic a) s, g)"
  by (induction s arbitrary: b) auto

lemma replaceAll_scan_spaces:
  "replaceAll_scan False (Plus ASpace) '' '' 0 b s = collapse_ws False s
   \<and> replaceAll_scan False (Plus ASpace) '' '' (length (takeWhile isSpace s)) b s = collapse_ws True s"
proof (induction s arbitrary: b)
  case Nil
  then show ?case by simp
next
  case (Cons x xs)
  show ?case
  proof (cases "isSpace x")
    case True
    with Cons.IH[of "x # b"] show ?thesis by (simp add: star_greedy)
  next
    case False
    with Cons.IH[of "x # b"] show ?thesis by (simp add: star_greedy)
  qed
qed

lemma replaceAll_spaces: "replaceAll False (Plus ASpace) '' '' s = collapse_ws False s"
  by (simp add: replaceAll_def replaceAll_scan_spaces)

lemma toUpperChar_cases: "toUpperChar c = c \<or> (isWord c \<and> isWord (toUpperChar c))"
  by (cases c) (simp add: isWord_def Let_def)

lemma isSpace_not_word: "isSpace c \<Longrightarrow> \<not> isWord c"
  by (auto simp: isSpace_def isWord_def)

lemma isSpace_toUpperChar [simp]: "isSpace (toUpperChar c) = isSpace c"
  using toUpperChar_cases[of c] isSpace_not_word by metis








subsection \<open>Blocked keywords\<close>

lemma word_here_rev: "word_here (rev xs) = (xs \<noteq> [] \<and> isWord (last xs))"
  by (cases xs rule: rev_cases) auto

lemma word_here_hd: "word_here xs = (xs \<noteq> [] \<and> isWord (hd xs))"
  by (cases xs) auto

lemma blank_not_word: "\<not> isWord (CHR '' '')"
  by (simp add: isWord_def)

lemma collapse_no_spaces:
  "\<forall>c\<in>set mid. \<not> isSpace c \<Longrightarrow> mid \<noteq> [] \<Longrightarrow>
     collapse_ws i (mid @ post) = mid @ collapse_ws False post"
proof (induction mid arbitrary: i)
  case Nil
  then show ?case by simp
next
  case (Cons x xs)
  then show ?case by (cases xs) auto
qed

lemma collapse_append_word:
  "\<forall>c\<in>set mid. \<not> isSpace c \<Longrightarrow> mid \<noteq> [] \<Longrightarrow>
     \<exists>j. collapse_ws i (pre @ mid @ post) = collapse_ws i pre @ mid @ collapse_ws False post"
proof (induction pre arbitrary: i)
  case Nil
  then show ?case by (simp add: collapse_no_spaces)
next
  case (Cons x xs)
  then show ?case by auto
qed

lemma collapse_last_not_word:
  "\<not> word_here (rev pre) \<Longrightarrow> \<not> word_here (rev (collapse_ws i pre))"
proof (induction pre arbitrary: i rule: rev_induct)
  case Nil
  then show ?case by simp
next
  case (snoc x xs)
  have "collapse_ws i (xs @ [x]) = collapse_ws i xs @ collapse_ws (if xs = [] then i else isSpace (last xs)) [x]"
  proof (induction xs arbitrary: i)
    case Nil
    then show ?case by simp
  next
    case (Cons y ys)
    then show ?case by (cases ys) auto
  qed
  moreover have "\<not> isWord x" using snoc.prems by (simp add: word_here_rev)
  ultimately show ?case using snoc.IH blank_not_word isSpace_not_word
    by (auto simp: word_here_rev split: if_splits)
qed

lemma collapse_hd_not_word:
  "\<not> word_here post \<Longrightarrow> \<not> word_here (collapse_ws False post)"
  by (cases post) (auto simp: blank_not_word)

lemma contains_word_collapse:
  assumes "contains_word kw s" and "kw \<noteq> []" and "\<forall>c\<in>set kw. \<not> isSpace c"
  shows "contains_word kw (collapse_ws False s)"
proof -
  from assms(1) obtain pre mid post where s: "s = pre @ mid @ post" and kw: "toUpperCase mid = kw"
    and b: "\<not> word_here (rev pre)" "\<not> word_here post" unfolding contains_word_def by blast
  from kw assms(2) have m0: "mid \<noteq> []" by (auto simp: toUpperCase_def)
  have msp: "\<forall>c\<in>set mid. \<not> isSpace c"
  proof
    fix c assume "c \<in> set mid"
    then have "toUpperChar c \<in> set kw" using kw by (auto simp: toUpperCase_def)
    with assms(3) show "\<not> isSpace c" by auto
  qed
  from collapse_append_word[OF msp m0, of False pre post]
  have "collapse_ws False s = collapse_ws False pre @ mid @ collapse_ws False post" using s by simp
  with kw collapse_last_not_word[OF b(1), of False] collapse_hd_not_word[OF b(2)]
  show ?thesis unfolding contains_word_def by blast
qed

lemma contains_word_trim:
  assumes "contains_word kw s" and "kw \<noteq> []" and "\<forall>c\<in>set kw. \<not> isSpace c"
  shows "contains_word kw (trim s)"
proof -
  from assms(1) obtain pre mid post where s: "s = pre @ mid @ post" and kw: "toUpperCase mid = kw"
    and b: "\<not> word_here (rev pre)" "\<not> word_here post" unfolding contains_word_def by blast
  from kw assms(2) have m0: "mid \<noteq> []" by (auto simp: toUpperCase_def)
  have msp: "\<forall>c\<in>set mid. \<not> isSpace c"
  proof
    fix c assume "c \<in> set mid"
    then have "toUpperChar c \<in> set kw" using kw by (auto simp: toUpperCase_def)
    with assms(3) show "\<not> isSpace c" by auto
  qed
  from m0 msp have hm: "\<not> isSpace (hd mid)" "\<not> isSpace (last mid)" by auto
  define pre' where "pre' = dropWhile isSpace pre"
  define post' where "post' = rev (dropWhile isSpace (rev post))"
  have 1: "dropWhile isSpace (pre @ mid @ post) = pre' @ mid @ post"
    using hm(1) m0 by (cases mid) (auto simp: dropWhile_append pre'_def)
  have "dropWhile isSpace (rev post @ rev mid @ rev pre') = dropWhile isSpace (rev post) @ rev mid @ rev pre'"
    using hm(2) m0 by (cases mid rule: rev_cases) (auto simp: dropWhile_append)
  then have 2: "trim s = pre' @ mid @ post'"
    using 1 s by (simp add: trim_def post'_def)
  have "\<not> word_here (rev pre')"
  proof (cases "pre' = []")
    case True then show ?thesis by simp
  next
    case False
    obtain zs where "pre = zs @ pre'" unfolding pre'_def
      by (metis takeWhile_dropWhile_id)
    with False have "last pre' = last pre" "pre \<noteq> []" by auto
    with b(1) False show ?thesis by (simp add: word_here_rev)
  qed
  moreover have "\<not> word_here post'"
  proof (cases "post' = []")
    case True then show ?thesis by simp
  next
    case False
    have "post = post' @ rev (takeWhile isSpace (rev post))" unfolding post'_def
      by (metis rev_append rev_rev_ident takeWhile_dropWhile_id)
    with False have "hd post' = hd post" "post \<noteq> []" by (metis hd_append2, auto)
    with b(2) False show ?thesis by (simp add: word_here_hd)
  qed
  ultimately show ?thesis using 2 kw unfolding contains_word_def by blast
qed

lemma accepts_alts:
  "r \<in> set rs \<Longrightarrow> accepts ic r st st' \<Longrightarrow> accepts ic (alts rs) st st'"
  by (induction rs rule: alts.induct) auto

lemma accepts_word_boundaries:
  assumes "accepts True r (rev pre, mid @ post, g) (rev mid @ rev pre, post, g')"
    and "mid \<noteq> []" and "isWord (hd mid)" and "isWord (last mid)"
    and "\<not> word_here (rev pre)" and "\<not> word_here post"
  shows "accepts True (seqs [WordB, r, WordB]) (rev pre, mid @ post, g) (rev mid @ rev pre, post, g')"
proof -
  have 1: "accepts True WordB (rev pre, mid @ post, g) (rev pre, mid @ post, g)"
    using assms(2,3,5) by (cases mid) auto
  have "word_here (rev mid @ rev pre)" using assms(2,4) by (cases mid rule: rev_cases) auto
  then have 3: "accepts True WordB (rev mid @ rev pre, post, g') (rev mid @ rev pre, post, g')"
    using assms(6) by simp
  from 1 assms(1) 3 show ?thesis unfolding seqs.simps accepts.simps(7) by blast
qed

lemma accepts_keyword:
  assumes "toUpperCase mid = kw" and "toUpperCase kw = kw"
  shows "accepts True (Lit kw) (rev pre, mid @ post, g) (rev mid @ rev pre, post, g)"
proof -
  from assms(1) have "length mid = length kw" by (auto simp: toUpperCase_def)
  with assms show ?thesis by (simp add: toUpperCase_def canon_True)
qed

lemma keyword_test:
  assumes "contains_word kw s" and "kw \<noteq> []" and "toUpperCase kw = kw"
    and "isWord (hd kw)" and "isWord (last kw)"
    and r: "\<And>pre mid post g. toUpperCase mid = kw \<Longrightarrow>
              \<exists>g'. accepts True r (rev pre, mid @ post, g) (rev mid @ rev pre, post, g')"
  shows "re_test True (seqs [WordB, r, WordB]) s"
proof -
  from assms(1) obtain pre mid post where s: "s = pre @ mid @ post" and kw: "toUpperCase mid = kw"
    and b: "\<not> word_here (rev pre)" "\<not> word_here post" unfolding contains_word_def by blast
  from kw assms(2) have m0: "mid \<noteq> []" by (auto simp: toUpperCase_def)
  have "toUpperChar (hd mid) = hd kw" "toUpperChar (last mid) = last kw"
    using kw m0 by (auto simp: toUpperCase_def hd_map last_map)
  with assms(4,5) toUpperChar_cases[of "hd mid"] toUpperChar_cases[of "last mid"]
  have w: "isWord (hd mid)" "isWord (last mid)" by auto
  from r[OF kw, of pre post Map.empty] obtain g' where
    "accepts True r (rev pre, mid @ post, Map.empty) (rev mid @ rev pre, post, g')" by blast
  from accepts_word_boundaries[OF this m0 w b]
  have acc: "accepts True (seqs [WordB, r, WordB]) (rev pre, mid @ post, Map.empty)
               (rev mid @ rev pre, post, g')" .
  from rx_complete[OF acc, of Some]
  have "rx True (seqs [WordB, r, WordB]) Some (rev pre @ [], mid @ post, Map.empty) \<noteq> None"
    by simp
  from rx_search_complete[OF this] s show ?thesis by (simp add: re_test_def)
qed

lemma dangerous_keyword_test:
  assumes "kw \<in> set dangerousKeywords" and "contains_word kw s"
  shows "re_test True dangerousPattern s"
  unfolding dangerousPattern_def
proof (rule keyword_test[OF assms(2)])
  show "kw \<noteq> []" "toUpperCase kw = kw" "isWord (hd kw)" "isWord (last kw)"
    using assms(1) by (auto simp: dangerousKeywords_def toUpperCase_def isWord_def)
next
  fix pre mid post g assume m: "toUpperCase mid = kw"
  have u: "toUpperCase kw = kw" using assms(1) by (auto simp: dangerousKeywords_def toUpperCase_def)
  have "accepts True (alts (map Lit dangerousKeywords)) (rev pre, mid @ post, g)
          (rev mid @ rev pre, post, g)"
    by (rule accepts_alts[of "Lit kw"]) (use assms(1) accepts_keyword[OF m u] in auto)
  then have "accepts True (Group 1 (alts (map Lit dangerousKeywords))) (rev pre, mid @ post, g)
          (rev mid @ rev pre, post, g(1 \<mapsto> take (length (mid @ post) - length post) (mid @ post)))"
    unfolding accepts.simps(9) by blast
  then show "\<exists>g'. accepts True (Group 1 (alts (map Lit dangerousKeywords))) (rev pre, mid @ post, g)
          (rev mid @ rev pre, post, g')" by blast
qed

lemma extra_keyword_test:
  assumes "kw = ''INTO'' \<or> kw = ''VALUES''" and "contains_word kw s"
  shows "re_test True (seqs [WordB, Lit kw, WordB]) s"
proof (rule keyword_test[OF assms(2)])
  show "kw \<noteq> []" "toUpperCase kw = kw" "isWord (hd kw)" "isWord (last kw)"
    using assms(1) by (auto simp: toUpperCase_def isWord_def)
next
  fix pre mid post g assume m: "toUpperCase mid = kw"
  have u: "toUpperCase kw = kw" using assms(1) by (auto simp: toUpperCase_def)
  from accepts_keyword[OF m u]
  show "\<exists>g'. accepts True (Lit kw) (rev pre, mid @ post, g) (rev mid @ rev pre, post, g')" by blast
qed

lemma blocked_keyword_unsafe:
  assumes "kw \<in> set blockedKeywords" and "contains_word kw s"
  shows "\<not> isSafeQuery (JStr s)"
proof -
  have k: "kw \<noteq> []" "\<forall>c\<in>set kw. \<not> isSpace c"
    using assms(1) by (auto simp: blockedKeywords_def dangerousKeywords_def isSpace_def)
  let ?c = "trim (replaceAll False (Plus ASpace) '' '' s)"
  have c: "contains_word kw ?c"
    unfolding replaceAll_spaces
    by (intro contains_word_trim contains_word_collapse assms(2) k)
  from assms(1) have "kw \<in> set dangerousKeywords \<or> kw = ''INTO'' \<or> kw = ''VALUES''"
    by (auto simp: blockedKeywords_def)
  then show ?thesis
  proof
    assume "kw \<in> set dangerousKeywords"
    from dangerous_keyword_test[OF this c] show ?thesis
      by (simp add: isSafeQuery_def isSafeQuery_try_def Let_def)
  next
    assume e: "kw = ''INTO'' \<or> kw = ''VALUES''"
    from extra_keyword_test[OF e c] e show ?thesis
      by (auto simp add: isSafeQuery_def isSafeQuery_try_def Let_def)
  qed
qed

lemma str_includes_middle: "str_includes (pre @ kw @ post) kw"
  by (induction pre) (auto simp: startsWith_def intro: startsWith_includes)

lemma blocked_keyword_unsafe_src:
  assumes "kw \<in> set blockedKeywords" and "contains_word kw s"
  shows "\<not> isSafeQuery_src (JStr s)"
proof -
  have k: "kw \<noteq> []" "\<forall>c\<in>set kw. \<not> isSpace c"
    using assms(1) by (auto simp: blockedKeywords_def dangerousKeywords_def isSpace_def)
  let ?c = "trim (replaceAll False (Plus ASpace) '' '' s)"
  have "contains_word kw ?c"
    unfolding replaceAll_spaces
    by (intro contains_word_trim contains_word_collapse assms(2) k)
  then obtain pre mid post where "?c = pre @ mid @ post" "toUpperCase mid = kw"
    unfolding contains_word_def by blast
  then have "toUpperCase ?c = toUpperCase pre @ kw @ toUpperCase post"
    by (simp add: toUpperCase_def)
  then have inc: "str_includes (toUpperCase ?c) kw" by (simp add: str_includes_middle)
  from assms(1) have "kw \<in> set dangerousKeywords \<or> kw = ''INTO'' \<or> kw = ''VALUES''"
    by (auto simp: blockedKeywords_def)
  with inc show ?thesis
    by (auto simp add: isSafeQuery_src_def isSafeQuery_src_try_def Let_def list_ex_iff)
qed

subsection \<open>The validators\<close>

text \<open>
  C10. Both validators return a boolean for every value. On a string the body of the
  \<^verbatim>\<open>try\<close> block returns normally and its answer is the answer of the validator; on
  any other value the body throws, and whenever the body throws the validator
  answers false.
\<close>

theorem validator_total_and_fails_closed:
  "isSafeQuery_try (JStr s) = Inr (isSafeQuery (JStr s))
   \<and> ((\<forall>t. v \<noteq> JStr t) \<longrightarrow> (\<exists>e. isSafeQuery_try v = Inl e) \<and> \<not> isSafeQuery v)
   \<and> ((\<exists>e. isSafeQuery_try v = Inl e) \<longrightarrow> \<not> isSafeQuery v)
   \<and> isSafeQuery_src_try (JStr s) = Inr (isSafeQuery_src (JStr s))
   \<and> ((\<forall>t. v \<noteq> JStr t) \<longrightarrow> (\<exists>e. isSafeQuery_src_try v = Inl e) \<and> \<not> isSafeQuery_src v)
   \<and> ((\<exists>e. isSafeQuery_src_try v = Inl e) \<longrightarrow> \<not> isSafeQuery_src v)"
  by (cases v)
     (auto simp add: isSafeQuery_def isSafeQuery_try_def isSafeQuery_src_def isSafeQuery_src_try_def
        Let_def)

theorem validator_total_and_fails_closed_witness:
  "(\<forall>t. JNum 7 \<noteq> JStr t) \<and> (\<exists>e. isSafeQuery_try (JNum 7) = Inl e) \<and> \<not> isSafeQuery (JNum 7)
   \<and> (\<exists>e. isSafeQuery_src_try (JNum 7) = Inl e) \<and> \<not> isSafeQuery_src (JNum 7)"
  using validator_total_and_fails_closed[of "[]" "JNum 7"] by simp

text \<open>
  C2 at a statement that selects the column \<^verbatim>\<open>created_date\<close>: the validator of
  backend/src/services/geminiService.js, which matches with word boundaries, accepts
  it; the validator of src/services/geminiService.js, which matches with
  \<^verbatim>\<open>includes\<close>, finds CREATE inside CREATED_DATE and rejects it.
\<close>

lemma created_clean: "trim (replaceAll False (Plus ASpace) '' '' stmt_created) = stmt_created"
  by (simp add: stmt_created_def char_defs re_defs str_defs)

theorem created_date_rejected_by_src_validator:
  "isSafeQuery (JStr stmt_created) \<and> \<not> isSafeQuery_src (JStr stmt_created)"
proof -
  have "isSafeQuery (JStr stmt_created)"
    by (simp add: isSafeQuery_def isSafeQuery_try_def created_clean)
       (simp add: stmt_created_def dangerousPattern_def dangerousKeywords_def char_defs re_defs str_defs)
  moreover have "\<not> isSafeQuery_src (JStr stmt_created)"
    by (simp add: isSafeQuery_src_def isSafeQuery_src_try_def created_clean)
       (simp add: stmt_created_def dangerousKeywords_def str_defs)
  ultimately show ?thesis by simp
qed

subsection \<open>DISTINCT\<close>

lemma distinct_filter_keep_first:
  "inj_on stringify (set rows) \<Longrightarrow>
     distinct_filter stringify seen rows =
       keep_first (filter (\<lambda>item. stringify item \<notin> set seen) rows)"
proof (induction rows arbitrary: seen)
  case Nil
  then show ?case by simp
next
  case (Cons x xs)
  from Cons.prems have inj: "inj_on stringify (set xs)" by (simp add: inj_on_def)
  show ?case
  proof (cases "stringify x \<in> set seen")
    case True
    with Cons.IH[OF inj, of seen] show ?thesis by simp
  next
    case False
    have "filter (\<lambda>item. stringify item \<notin> set (stringify x # seen)) xs =
          filter (\<lambda>y. y \<noteq> x) (filter (\<lambda>item. stringify item \<notin> set seen) xs)"
      using Cons.prems by (auto simp add: inj_on_def intro!: filter_cong)
    with False Cons.IH[OF inj, of "stringify x # seen"] show ?thesis by simp
  qed
qed

text \<open>
  C7. When \<^verbatim>\<open>isDistinct\<close> is set on the regular SELECT path and the store answers
  with rows whose serialisations differ whenever the rows differ, the result is the
  rows with every later copy of a row removed: the first occurrence of each row
  stays and the order of the remaining rows is unchanged.
\<close>

theorem distinct_keeps_first_occurrences:
  assumes "from_target (cleanSQL_of sql)"
    and "\<not> str_includes (toUpperCase (cleanSQL_of sql)) ''COUNT(*)''"
    and "snd (selectList (cleanSQL_of sql))"
    and "\<forall>q. resp_error (respond st q) = None \<and> resp_data (respond st q) = Some rows"
    and "inj_on stringify (set rows)"
  shows "fst (parseAndExecuteSQL stringify st sql) =
           Inr \<lparr>p_data = Some (keep_first rows), p_count = length (keep_first rows)\<rparr>"
proof -
  from assms(1) obtain g where g: "str_match True from_re (cleanSQL_of sql) = Some g"
    by (auto simp: from_match_iff)
  obtain cols where sl: "selectList (cleanSQL_of sql) = (cols, True)"
    using assms(3) by (cases "selectList (cleanSQL_of sql)") auto
  from parse_select_path[OF g assms(2) sl, of stringify st] assms(4)
    distinct_filter_keep_first[OF assms(5), of "[]"]
  show ?thesis by (cases rows) (simp_all add: select_outcome_def await_def Let_def)
qed

lemma distinct_clean: "cleanSQL_of stmt_distinct = ''SELECT DISTINCT category FROM items LIMIT 100''"
  by (simp add: cleanSQL_of_def stmt_distinct_def char_defs re_defs str_defs)

lemma distinct_from:
  "str_match True from_re ''SELECT DISTINCT category FROM items LIMIT 100'' = Some (Map.empty(1 \<mapsto> ''items''))"
  by (simp add: from_re_def char_defs re_defs)

lemma distinct_select:
  "selectList ''SELECT DISTINCT category FROM items LIMIT 100'' = (''category'', True)"
  by (simp add: selectList_def select_re_def char_defs re_defs str_defs)

theorem distinct_keeps_first_occurrences_witness:
  "from_target (cleanSQL_of stmt_distinct)
   \<and> \<not> str_includes (toUpperCase (cleanSQL_of stmt_distinct)) ''COUNT(*)''
   \<and> snd (selectList (cleanSQL_of stmt_distinct))
   \<and> (\<forall>q. resp_error (respond store0 q) = None \<and> resp_data (respond store0 q) = Some rows0)
   \<and> inj_on stringify0 (set rows0)
   \<and> fst (parseAndExecuteSQL stringify0 store0 stmt_distinct) =
        Inr \<lparr>p_data = Some [[(''category'', JStr ''books'')], [(''category'', JStr ''toys'')]],
             p_count = 2\<rparr>"
proof -
  have a: "from_target (cleanSQL_of stmt_distinct)"
    by (simp add: distinct_clean from_match_iff distinct_from)
  have b: "\<not> str_includes (toUpperCase (cleanSQL_of stmt_distinct)) ''COUNT(*)''"
    by (simp add: distinct_clean str_defs)
  have c: "snd (selectList (cleanSQL_of stmt_distinct))"
    by (simp add: distinct_clean distinct_select)
  have d: "\<forall>q. resp_error (respond store0 q) = None \<and> resp_data (respond store0 q) = Some rows0"
    by (simp add: store0_def)
  have e: "inj_on stringify0 (set rows0)"
    by (simp add: rows0_def stringify0_def)
  from distinct_keeps_first_occurrences[OF a b c d e] a b c d e
  show ?thesis by (simp add: rows0_def)
qed

subsection \<open>Counting per category\<close>

lemma bump_keys_subset: "set (map fst (bump kvs k)) \<subseteq> insert k (set (map fst kvs))"
  by (induction kvs k rule: bump.induct) auto

lemma bump_keys:
  "k \<notin> set Object_prototype_names \<Longrightarrow> set (map fst (bump kvs k)) = insert k (set (map fst kvs))"
  by (induction kvs k rule: bump.induct) auto

lemma bump_distinct: "distinct (map fst kvs) \<Longrightarrow> distinct (map fst (bump kvs k))"
proof (induction kvs k rule: bump.induct)
  case (1 category)
  then show ?case by simp
next
  case (2 k v kvs category)
  then show ?case using bump_keys_subset[of kvs category] by (auto simp del: set_map)
qed

lemma map_of_bump:
  "k \<notin> set Object_prototype_names \<Longrightarrow>
     map_of (bump kvs k) =
       (map_of kvs)(k \<mapsto> (case map_of kvs k of None \<Rightarrow> Count 1 | Some v \<Rightarrow> plus_one v))"
  by (induction kvs k rule: bump.induct) (auto simp: fun_upd_twist)

lemma foldl_bump_keys:
  "set ks \<inter> set Object_prototype_names = {} \<Longrightarrow>
     set (map fst (foldl bump kvs ks)) = set (map fst kvs) \<union> set ks"
  by (induction ks arbitrary: kvs) (auto simp: bump_keys simp del: set_map)

lemma foldl_bump_distinct: "distinct (map fst kvs) \<Longrightarrow> distinct (map fst (foldl bump kvs ks))"
  by (induction ks arbitrary: kvs) (auto simp: bump_distinct)

lemma map_of_foldl_bump:
  "set ks \<inter> set Object_prototype_names = {} \<Longrightarrow>
     map_of (foldl bump [] ks) k = (if k \<in> set ks then Some (Count (count_list ks k)) else None)"
proof (induction ks rule: rev_induct)
  case Nil
  then show ?case by simp
next
  case (snoc x xs)
  then have "x \<notin> set Object_prototype_names" "set xs \<inter> set Object_prototype_names = {}"
    by auto
  with snoc.IH show ?case by (auto simp: map_of_bump)
qed

lemma foldl_bump_counts:
  assumes "set ks \<inter> set Object_prototype_names = {}" and "(k, v) \<in> set (foldl bump [] ks)"
  shows "v = Count (count_list ks k)"
proof -
  have "distinct (map fst (foldl bump [] ks))" by (rule foldl_bump_distinct) simp
  with assms(2) have "map_of (foldl bump [] ks) k = Some v" by simp
  then show ?thesis by (simp add: map_of_foldl_bump[OF assms(1)] split: if_splits)
qed

text \<open>
  A key of \<^verbatim>\<open>Object.prototype\<close> is counted by a text, as in
  \<^verbatim>\<open>{ category: 'constructor', count: 'function Object() { [native code] }1' }\<close>.
\<close>

lemma bump_constructor:
  "bump [] ''constructor'' = [(''constructor'', Text ''function Object() { [native code] }1'')]"
  by (simp add: Object_prototype_names_def inherited_text_def)

lemma Object_entries_set: "set (Object_entries kvs) = set kvs"
  by (auto simp: Object_entries_def)

lemma Object_entries_distinct: "distinct (map fst kvs) \<Longrightarrow> distinct (map fst (Object_entries kvs))"
  by (auto simp: Object_entries_def distinct_map inj_on_def)

lemma insert_entry_counts:
  "insert_entry (k, Count n) (map (\<lambda>(k, n). (k, Count n)) ys) =
     map (\<lambda>(k, n). (k, Count n)) (insort_key (\<lambda>(k, n). - int n) (k, n) ys)"
  by (induction ys) auto

lemma sort_by_count_counts:
  "sort_by_count (map (\<lambda>(k, n). (k, Count n)) ns) =
     map (\<lambda>(k, n). (k, Count n)) (sort_key (\<lambda>(k, n). - int n) ns)"
proof (induction ns)
  case Nil
  then show ?case by (simp add: sort_by_count_def)
next
  case (Cons a ns)
  obtain k n where a: "a = (k, n)" by (cases a)
  from Cons show ?case
    by (simp add: sort_by_count_def sort_key_def a insert_entry_counts[symmetric])
qed

lemma sort_key_descending:
  "sorted_wrt (\<lambda>a b. snd b \<le> snd a) (sort_key (\<lambda>(k, n). - int n) (ns :: (string \<times> nat) list))"
proof -
  have "sorted (map (\<lambda>(k, n). - int n) (sort_key (\<lambda>(k, n). - int n) ns))"
    by (rule sorted_sort_key)
  then show ?thesis by (simp add: sorted_wrt_map case_prod_unfold)
qed

lemma groupByBranch_result:
  assumes "resp_error (respond st categories_query) = None"
    and "resp_data (respond st categories_query) = Some rows"
    and "set (category_keys toStr rows) \<inter> set Object_prototype_names = {}"
  shows "\<exists>groups.
           groupByBranch toStr st =
             (Inr (map (\<lambda>(category, n). [(''category'', JStr category), (''count'', JNum (of_nat n))])
                       groups, length groups),
              st\<lparr>received := received st @ [categories_query]\<rparr>)
           \<and> distinct (map fst groups)
           \<and> set (map fst groups) = set (category_keys toStr rows)
           \<and> (\<forall>(k, n)\<in>set groups. n = count_list (category_keys toStr rows) k)
           \<and> sorted_wrt (\<lambda>a b. snd b \<le> snd a) groups"
proof -
  let ?ks = "category_keys toStr rows"
  let ?counts = "foldl bump [] ?ks"
  let ?W = "\<lambda>(k, n). (k, Count n)"
  define es where "es = Object_entries ?counts"
  define ns where "ns = map (\<lambda>(k, v). (k, count_list ?ks k)) es"
  define groups where "groups = sort_key (\<lambda>(k, n). - int n) ns"
  have fold: "foldl (\<lambda>counts item. bump counts (toStr (get_prop item ''category''))) [] rows = ?counts"
    by (simp add: category_keys_def foldl_map)
  have d0: "distinct (map fst ?counts)" by (rule foldl_bump_distinct) simp
  have es_set: "set es = set ?counts" by (simp add: es_def Object_entries_set)
  have es_counts: "v = Count (count_list ?ks k)" if "(k, v) \<in> set es" for k v
    using that foldl_bump_counts[OF assms(3)] es_set by blast
  have "map (\<lambda>(k, v). (k, Count (count_list ?ks k))) es = es"
    by (rule map_idI) (auto dest: es_counts)
  then have es: "es = map ?W ns"
    by (simp add: ns_def case_prod_unfold comp_def)
  have fst_ns: "map fst ns = map fst es" by (simp add: ns_def case_prod_unfold)
  have sorted: "sort_by_count es = map ?W groups"
    by (simp add: es groups_def sort_by_count_counts)
  have 1: "groupByBranch toStr st =
             (Inr (map (\<lambda>(category, n). [(''category'', JStr category), (''count'', JNum (of_nat n))])
                       groups, length groups),
              st\<lparr>received := received st @ [categories_query]\<rparr>)"
    using assms(1,2)
    by (simp add: groupByBranch_def await_def Let_def fold categories_query_def[symmetric]
          es_def[symmetric] sorted case_prod_unfold comp_def)
  have "distinct (map fst es)" unfolding es_def by (rule Object_entries_distinct[OF d0])
  then have "distinct (map fst ns)" by (simp add: fst_ns)
  then have 2: "distinct (map fst groups)" by (simp add: groups_def distinct_map)
  have "set (map fst groups) = set (map fst ns)" by (simp add: groups_def)
  also have "\<dots> = set (map fst ?counts)" by (simp add: fst_ns es_set del: set_map) (simp add: es_set)
  finally have 3: "set (map fst groups) = set ?ks"
    using foldl_bump_keys[OF assms(3), of "[]"] by simp
  have 4: "\<forall>(k, n)\<in>set groups. n = count_list ?ks k"
    by (auto simp: groups_def ns_def)
  from 1 2 3 4 sort_key_descending[of ns] show ?thesis unfolding groups_def by blast
qed

lemma group_clean: "cleanSQL_of stmt_group = stmt_group"
  by (simp add: cleanSQL_of_def stmt_group_def char_defs re_defs str_defs)

lemma group_from: "str_match True from_re stmt_group = Some (Map.empty(1 \<mapsto> ''items''))"
  by (simp add: from_re_def stmt_group_def char_defs re_defs)

lemma group_select:
  "str_match True select_re stmt_group = Some (Map.empty(1 \<mapsto> ''category, COUNT(*)''))"
  by (simp add: select_re_def stmt_group_def char_defs re_defs)

lemma group_where: "applyWhereClause q stmt_group = q"
  by (simp add: applyWhereClause_def stmt_group_def char_defs re_defs str_defs)

lemma group_includes:
  "str_includes (toUpperCase stmt_group) ''COUNT(*)''" "str_includes (toUpperCase stmt_group) ''GROUP BY''"
  by (simp_all add: stmt_group_def str_defs)

lemma group_parsed:
  "parseAndExecuteSQL stringify0 store0 stmt_group =
     (Inr \<lparr>p_data = Some rows0, p_count = 3\<rparr>,
      store0\<lparr>received := [[From ''items'', Select ''category, COUNT(*)'' None]]\<rparr>)"
  by (simp add: parseAndExecuteSQL_def group_clean group_from group_select group_where group_includes
        applyGroupBy_def await_def grp_def trim_def isSpace_def Let_def)
     (simp add: store0_def rows0_def)

subsection \<open>COUNT\<close>

lemma count_parse:
  assumes "from_target (cleanSQL_of sql)"
    and "str_includes (toUpperCase (cleanSQL_of sql)) ''COUNT(*)''"
    and "\<not> str_includes (toUpperCase (cleanSQL_of sql)) ''GROUP BY''"
  shows "\<exists>t fs. is_column t \<and> list_all typed_predicate fs
           \<and> received (snd (parseAndExecuteSQL stringify st sql)) =
               received st @ [From t # Select ''*'' (Some False) # fs]
           \<and> fst (parseAndExecuteSQL stringify st sql) =
               (case resp_error (respond st (From t # Select ''*'' (Some False) # fs)) of
                  Some e \<Rightarrow> Inl (StoreError e)
                | None \<Rightarrow>
                    Inr \<lparr>p_data = Some [[(''total'',
                           (case resp_count (respond st (From t # Select ''*'' (Some False) # fs)) of
                              None \<Rightarrow> JNull | Some n \<Rightarrow> JNum (of_nat n)))]],
                         p_count = 1\<rparr>)"
proof -
  from assms(1) obtain g where g: "str_match True from_re (cleanSQL_of sql) = Some g"
    by (auto simp: from_match_iff)
  let ?fs = "applyWhereClause [] (cleanSQL_of sql)"
  let ?q = "From (grp g 1) # Select ''*'' (Some False) # ?fs"
  have q: "applyWhereClause ([From (grp g 1)] @ [Select ''*'' (Some False)]) (cleanSQL_of sql) = ?q"
    using applyWhereClause_append[of "[From (grp g 1), Select ''*'' (Some False)]" "cleanSQL_of sql"]
    by simp
  have r: "received (snd (parseAndExecuteSQL stringify st sql)) = received st @ [?q]"
    using g assms(2,3) q
    by (simp add: parseAndExecuteSQL_def Let_def await_def split: option.splits)
  have f: "fst (parseAndExecuteSQL stringify st sql) =
               (case resp_error (respond st ?q) of
                  Some e \<Rightarrow> Inl (StoreError e)
                | None \<Rightarrow>
                    Inr \<lparr>p_data = Some [[(''total'',
                           (case resp_count (respond st ?q) of
                              None \<Rightarrow> JNull | Some n \<Rightarrow> JNum (of_nat n)))]],
                         p_count = 1\<rparr>)"
    using g assms(2,3) q
    by (simp add: parseAndExecuteSQL_def Let_def await_def split: option.splits)
  from from_match_table[OF g] applyWhereClause_typed[of "cleanSQL_of sql"] r f
  show ?thesis by blast
qed


lemma isSafeQuery_select:
  "isSafeQuery (JStr s) \<Longrightarrow> str_includes (upperQuery_of s) ''SELECT''"
  by (auto simp add: isSafeQuery_def isSafeQuery_try_def upperQuery_of_def Let_def
        intro: startsWith_includes split: if_splits)

lemma with_param_shape: "\<exists>fs. with_param (q @ gs) mk cq ps = q @ fs"
  by (simp add: with_param_def split: option.splits)

lemma countBranch_shape:
  "\<exists>fs. countBranch st cq uq ps =
     (case resp_error (respond st (From ''items'' # Select ''*'' (Some True) # fs)) of
        Some e \<Rightarrow> Inl (StoreError e)
      | None \<Rightarrow>
          Inr ([[(''total'',
                  (case resp_count (respond st (From ''items'' # Select ''*'' (Some True) # fs)) of
                     None \<Rightarrow> JNull | Some n \<Rightarrow> JNum (of_nat n)))]], 1),
      st\<lparr>received := received st @ [From ''items'' # Select ''*'' (Some True) # fs]\<rparr>)"
proof -
  define q0 where "q0 = [From ''items'', Select ''*'' (Some True)]"
  define wc where "wc = (case indexOf (toUpperCase cq) ''WHERE'' of
                           None \<Rightarrow> drop 4 cq | Some i \<Rightarrow> drop (i + 5) cq)"
  define q1 where "q1 = (if str_includes wc ''CATEGORY =''
                         then with_param q0 (Eq ''category'') cq ps else q0)"
  define q2 where "q2 = (if str_includes wc ''IS_ACTIVE =''
                         then with_param q1 (Eq ''is_active'') cq ps else q1)"
  define q where "q = (if str_includes uq ''WHERE'' then q2 else q0)"
  have run: "countBranch st cq uq ps =
     (case resp_error (respond st q) of
        Some e \<Rightarrow> Inl (StoreError e)
      | None \<Rightarrow>
          Inr ([[(''total'', (case resp_count (respond st q) of
                               None \<Rightarrow> JNull | Some n \<Rightarrow> JNum (of_nat n)))]], 1),
      st\<lparr>received := received st @ [q]\<rparr>)"
    unfolding q_def q2_def q1_def wc_def q0_def
    by (simp add: countBranch_def Let_def await_def split: option.splits)
  have "\<exists>fs1. q1 = q0 @ fs1"
    using with_param_shape[of q0 "[]" "Eq ''category''" cq ps] by (cases "str_includes wc ''CATEGORY =''") (simp_all add: q1_def)
  then obtain fs1 where 1: "q1 = q0 @ fs1" by blast
  have "\<exists>fs2. q2 = q0 @ fs2"
    using with_param_shape[of q0 fs1 "Eq ''is_active''" cq ps] 1
    by (cases "str_includes wc ''IS_ACTIVE =''") (simp_all add: q2_def)
  then obtain fs2 where 2: "q2 = q0 @ fs2" by blast
  have "\<exists>fs. q = From ''items'' # Select ''*'' (Some True) # fs"
    using 2 by (cases "str_includes uq ''WHERE''") (simp_all add: q_def q0_def)
  with run show ?thesis by blast
qed

lemma count_executeQuery:
  assumes "isSafeQuery (JStr s)" and "str_includes (upperQuery_of s) ''FROM ITEMS''"
    and "str_includes (upperQuery_of s) ''COUNT(*)''"
  shows "\<exists>fs. received (snd (executeQuery toStr st (JStr s) ps)) =
                 received st @ [From ''items'' # Select ''*'' (Some True) # fs]
           \<and> fst (executeQuery toStr st (JStr s) ps) =
               (case resp_error (respond st (From ''items'' # Select ''*'' (Some True) # fs)) of
                  Some e \<Rightarrow> qfailure e (JStr s) ps
                | None \<Rightarrow>
                    \<lparr>success = True,
                     data = Some [[(''total'',
                       (case resp_count (respond st (From ''items'' # Select ''*'' (Some True) # fs)) of
                          None \<Rightarrow> JNull | Some n \<Rightarrow> JNum (of_nat n)))]],
                     count = Some 1, error = None, query = JStr s, params = ps\<rparr>)"
proof -
  have "executeQuery_try toStr st (JStr s) ps =
          countBranch st (trim (replaceAll False (Plus ASpace) '' '' s)) (upperQuery_of s) ps"
    using assms isSafeQuery_select[OF assms(1)]
    by (simp add: executeQuery_try_def upperQuery_of_def Let_def)
  with countBranch_shape[of st "trim (replaceAll False (Plus ASpace) '' '' s)" "upperQuery_of s" ps]
  obtain fs where "executeQuery_try toStr st (JStr s) ps =
     (case resp_error (respond st (From ''items'' # Select ''*'' (Some True) # fs)) of
        Some e \<Rightarrow> Inl (StoreError e)
      | None \<Rightarrow>
          Inr ([[(''total'',
                  (case resp_count (respond st (From ''items'' # Select ''*'' (Some True) # fs)) of
                     None \<Rightarrow> JNull | Some n \<Rightarrow> JNum (of_nat n)))]], 1),
      st\<lparr>received := received st @ [From ''items'' # Select ''*'' (Some True) # fs]\<rparr>)"
    by auto
  then show ?thesis
    by (intro exI[of _ fs]) (simp add: executeQuery_def to_result_def qfailure_def split: option.splits)
qed

lemma count_clean: "cleanSQL_of stmt_count = stmt_count"
  by (simp add: cleanSQL_of_def stmt_count_def char_defs re_defs str_defs)

lemma count_from: "str_match True from_re stmt_count = Some (Map.empty(1 \<mapsto> ''items''))"
  by (simp add: from_re_def stmt_count_def char_defs re_defs)

lemma count_where: "applyWhereClause q stmt_count = q @ [Lt ''price'' (JNum 50)]"
  by (simp add: applyWhereClause_def compare_re_def number_re_def parseFloat_def parseInt_def
      digit_val_def stmt_count_def char_defs re_defs str_defs)

lemma count_includes:
  "str_includes (toUpperCase stmt_count) ''COUNT(*)''"
  "\<not> str_includes (toUpperCase stmt_count) ''GROUP BY''"
  by (simp_all add: stmt_count_def str_defs)

lemma count_parsed:
  "received (snd (parseAndExecuteSQL stringify st stmt_count)) =
     received st @ [[From ''items'', Select ''*'' (Some False), Lt ''price'' (JNum 50)]]"
  by (simp add: parseAndExecuteSQL_def count_clean count_from count_where count_includes
        await_def grp_def Let_def split: option.splits)

lemma count_collapsed: "trim (replaceAll False (Plus ASpace) '' '' stmt_count) = stmt_count"
  by (simp add: stmt_count_def char_defs re_defs str_defs)

lemma count_upper: "upperQuery_of stmt_count = ''SELECT COUNT(*) FROM ITEMS WHERE PRICE < 50''"
  by (simp add: upperQuery_of_def stmt_count_def char_defs re_defs str_defs)

lemma count_safe: "isSafeQuery (JStr stmt_count)"
  using count_upper
  by (simp add: isSafeQuery_def isSafeQuery_try_def upperQuery_of_def startsWith_def)
     (simp add: stmt_count_def dangerousPattern_def dangerousKeywords_def char_defs re_defs str_defs)

lemma count_branch:
  "received (snd (countBranch st stmt_count (toUpperCase stmt_count) ps)) =
     received st @ [[From ''items'', Select ''*'' (Some True)]]"
proof -
  have i: "indexOf (toUpperCase stmt_count) ''WHERE'' = Some 27"
    by (simp add: stmt_count_def str_defs)
  have w: "\<not> str_includes (drop 32 stmt_count) ''CATEGORY =''"
    "\<not> str_includes (drop 32 stmt_count) ''IS_ACTIVE =''"
    by (simp_all add: stmt_count_def str_defs)
  show ?thesis
    by (simp add: countBranch_def i w await_def Let_def split: option.splits)
qed

lemma count_executed:
  "received (snd (executeQuery toStr st (JStr stmt_count) ps)) =
     received st @ [[From ''items'', Select ''*'' (Some True)]]"
proof -
  have "executeQuery_try toStr st (JStr stmt_count) ps =
          countBranch st stmt_count (toUpperCase stmt_count) ps"
    using count_upper
    by (simp add: executeQuery_try_def count_safe count_collapsed upperQuery_of_def Let_def
          startsWith_def)
  then show ?thesis
    using count_branch[of st ps]
    by (cases "countBranch st stmt_count (toUpperCase stmt_count) ps" rule: prod.exhaust)
       (auto simp add: executeQuery_def to_result_def split: sum.splits)
qed

text \<open>
  C3 fails in \<^verbatim>\<open>parseAndExecuteSQL\<close>. For
  \<^verbatim>\<open>SELECT COUNT(*) FROM items WHERE price < 50\<close> and every store, the query that
  is sent is \<^verbatim>\<open>from('items').select('*', { count: 'exact', head: false }).lt('price', 50)\<close>:
  with \<^verbatim>\<open>head: false\<close> the store is asked for the rows along with their count.
  \<^verbatim>\<open>executeQuery\<close> sends the COUNT query of the same statement with
  \<^verbatim>\<open>head: true\<close>. By \<open>count_parse\<close> the flag of \<^verbatim>\<open>parseAndExecuteSQL\<close> is
  \<^verbatim>\<open>false\<close> for every COUNT(*) statement without GROUP BY.
\<close>

theorem count_statement_fetches_rows:
  "received (snd (parseAndExecuteSQL stringify st stmt_count)) =
     received st @ [[From ''items'', Select ''*'' (Some False), Lt ''price'' (JNum 50)]]
   \<and> received (snd (executeQuery toStr st (JStr stmt_count) ps)) =
       received st @ [[From ''items'', Select ''*'' (Some True)]]"
  by (simp add: count_parsed count_executed)

subsection \<open>GROUP BY\<close>

lemma isSafeQuery_src_select:
  "isSafeQuery_src (JStr s) \<Longrightarrow> str_includes (upperQuery_of s) ''SELECT''"
  by (auto simp add: isSafeQuery_src_def isSafeQuery_src_try_def upperQuery_of_def Let_def
        intro: startsWith_includes split: if_splits)

lemma group_by_parse:
  assumes "from_target (cleanSQL_of sql)"
    and "str_includes (toUpperCase (cleanSQL_of sql)) ''COUNT(*)''"
    and "str_includes (toUpperCase (cleanSQL_of sql)) ''GROUP BY''"
  shows "\<exists>q. received (snd (parseAndExecuteSQL stringify st sql)) = received st @ [q]
           \<and> fst (parseAndExecuteSQL stringify st sql) =
               (case resp_error (respond st q) of
                  Some e \<Rightarrow> Inl (StoreError e)
                | None \<Rightarrow>
                    Inr \<lparr>p_data = resp_data (respond st q),
                         p_count = (case resp_data (respond st q) of
                                      None \<Rightarrow> 0 | Some d \<Rightarrow> length d)\<rparr>)"
proof -
  from assms(1) obtain g where g: "str_match True from_re (cleanSQL_of sql) = Some g"
    by (auto simp: from_match_iff)
  define q0 where
    "q0 = applyWhereClause ([From (grp g 1)] @ [Select ''*'' (Some False)]) (cleanSQL_of sql)"
  define q where
    "q = (case str_match True select_re (cleanSQL_of sql) of
            None \<Rightarrow> q0
          | Some selectMatch \<Rightarrow>
              applyGroupBy
                (applyWhereClause [From (grp g 1), Select (trim (grp selectMatch 1)) None]
                   (cleanSQL_of sql))
                (cleanSQL_of sql))"
  have "parseAndExecuteSQL stringify st sql =
          (case resp_error (respond st q) of
             Some e \<Rightarrow> Inl (StoreError e)
           | None \<Rightarrow>
               Inr \<lparr>p_data = resp_data (respond st q),
                    p_count = (case resp_data (respond st q) of None \<Rightarrow> 0 | Some d \<Rightarrow> length d)\<rparr>,
           st\<lparr>received := received st @ [q]\<rparr>)"
    unfolding q_def q0_def using g assms(2,3)
    by (simp add: parseAndExecuteSQL_def Let_def await_def split: option.splits)
  then show ?thesis by (intro exI[of _ q]) simp
qed

text \<open>
  C8, as the code has it. In \<^verbatim>\<open>executeQuery\<close> of src/services, a safe statement on
  the items table that contains GROUP BY and CATEGORY is answered from the rows of
  \<^verbatim>\<open>from('items').select('category').not('category', 'is', null)\<close>: when no
  category is the name of a member of \<^verbatim>\<open>Object.prototype\<close>, there is one output row
  \<^verbatim>\<open>{ category, count }\<close> for each distinct category key, the count being the
  number of rows with that key, ordered by count, largest first. The column is always
  \<^verbatim>\<open>category\<close>. In the backend translator \<^verbatim>\<open>applyGroupBy\<close> returns the query
  unchanged, and for a COUNT(*) statement with GROUP BY whose table is found
  \<^verbatim>\<open>parseAndExecuteSQL\<close> sends one query and, when the store reports no error,
  returns the rows of the response as they are, with their number as the count.
\<close>

theorem group_by_category_in_src_executeQuery:
  "(isSafeQuery_src (JStr s)
      \<and> str_includes (upperQuery_of s) ''FROM ITEMS''
      \<and> str_includes (upperQuery_of s) ''GROUP BY''
      \<and> str_includes (upperQuery_of s) ''CATEGORY''
      \<and> resp_error (respond st categories_query) = None
      \<and> resp_data (respond st categories_query) = Some rows
      \<and> set (category_keys toStr rows) \<inter> set Object_prototype_names = {} \<longrightarrow>
    (\<exists>groups.
       fst (executeQuery_src toStr st (JStr s) ps) =
         \<lparr>success = True,
          data = Some (map (\<lambda>(category, n).
                              [(''category'', JStr category), (''count'', JNum (of_nat n))])
                           groups),
          count = Some (length groups), error = None, query = JStr s, params = ps\<rparr>
       \<and> distinct (map fst groups)
       \<and> set (map fst groups) = set (category_keys toStr rows)
       \<and> (\<forall>(k, n)\<in>set groups. n = count_list (category_keys toStr rows) k)
       \<and> sorted_wrt (\<lambda>a b. snd b \<le> snd a) groups))
   \<and> applyGroupBy builder sql = builder
   \<and> (from_target (cleanSQL_of sql)
      \<and> str_includes (toUpperCase (cleanSQL_of sql)) ''COUNT(*)''
      \<and> str_includes (toUpperCase (cleanSQL_of sql)) ''GROUP BY'' \<longrightarrow>
    (\<exists>q. received (snd (parseAndExecuteSQL stringify st sql)) = received st @ [q]
       \<and> fst (parseAndExecuteSQL stringify st sql) =
           (case resp_error (respond st q) of
              Some e \<Rightarrow> Inl (StoreError e)
            | None \<Rightarrow>
                Inr \<lparr>p_data = resp_data (respond st q),
                     p_count = (case resp_data (respond st q) of
                                  None \<Rightarrow> 0 | Some d \<Rightarrow> length d)\<rparr>)))"
proof (intro conjI impI)
  assume a: "isSafeQuery_src (JStr s)
      \<and> str_includes (upperQuery_of s) ''FROM ITEMS''
      \<and> str_includes (upperQuery_of s) ''GROUP BY''
      \<and> str_includes (upperQuery_of s) ''CATEGORY''
      \<and> resp_error (respond st categories_query) = None
      \<and> resp_data (respond st categories_query) = Some rows
      \<and> set (category_keys toStr rows) \<inter> set Object_prototype_names = {}"
  then have e: "resp_error (respond st categories_query) = None"
    and d: "resp_data (respond st categories_query) = Some rows"
    and k: "set (category_keys toStr rows) \<inter> set Object_prototype_names = {}"
    and safe: "isSafeQuery_src (JStr s)" by simp_all
  from groupByBranch_result[OF e d k] obtain groups where
    g: "groupByBranch toStr st =
             (Inr (map (\<lambda>(category, n). [(''category'', JStr category), (''count'', JNum (of_nat n))])
                       groups, length groups),
              st\<lparr>received := received st @ [categories_query]\<rparr>)"
    and p: "distinct (map fst groups)" "set (map fst groups) = set (category_keys toStr rows)"
      "\<forall>(k, n)\<in>set groups. n = count_list (category_keys toStr rows) k"
      "sorted_wrt (\<lambda>a b. snd b \<le> snd a) groups" by blast
  have "executeQuery_src_try toStr st (JStr s) ps = groupByBranch toStr st"
    using a isSafeQuery_src_select[OF safe]
    by (simp add: executeQuery_src_try_def upperQuery_of_def Let_def)
  with g have "fst (executeQuery_src toStr st (JStr s) ps) =
             \<lparr>success = True,
              data = Some (map (\<lambda>(category, n).
                                  [(''category'', JStr category), (''count'', JNum (of_nat n))])
                               groups),
              count = Some (length groups), error = None, query = JStr s, params = ps\<rparr>"
    by (simp add: executeQuery_src_def to_result_def)
  with p show "\<exists>groups.
       fst (executeQuery_src toStr st (JStr s) ps) =
         \<lparr>success = True,
          data = Some (map (\<lambda>(category, n).
                              [(''category'', JStr category), (''count'', JNum (of_nat n))])
                           groups),
          count = Some (length groups), error = None, query = JStr s, params = ps\<rparr>
       \<and> distinct (map fst groups)
       \<and> set (map fst groups) = set (category_keys toStr rows)
       \<and> (\<forall>(k, n)\<in>set groups. n = count_list (category_keys toStr rows) k)
       \<and> sorted_wrt (\<lambda>a b. snd b \<le> snd a) groups" by blast
next
  show "applyGroupBy builder sql = builder" by (simp add: applyGroupBy_def)
next
  assume "from_target (cleanSQL_of sql)
      \<and> str_includes (toUpperCase (cleanSQL_of sql)) ''COUNT(*)''
      \<and> str_includes (toUpperCase (cleanSQL_of sql)) ''GROUP BY''"
  then show "\<exists>q. received (snd (parseAndExecuteSQL stringify st sql)) = received st @ [q]
       \<and> fst (parseAndExecuteSQL stringify st sql) =
           (case resp_error (respond st q) of
              Some e \<Rightarrow> Inl (StoreError e)
            | None \<Rightarrow>
                Inr \<lparr>p_data = resp_data (respond st q),
                     p_count = (case resp_data (respond st q) of
                                  None \<Rightarrow> 0 | Some d \<Rightarrow> length d)\<rparr>)"
    using group_by_parse[of sql stringify st] by blast
qed

lemma group_upper: "upperQuery_of stmt_group = ''SELECT CATEGORY, COUNT(*) FROM ITEMS GROUP BY CATEGORY''"
  by (simp add: upperQuery_of_def stmt_group_def char_defs re_defs str_defs)

lemma group_safe_src: "isSafeQuery_src (JStr stmt_group)"
  using group_upper
  by (simp add: isSafeQuery_src_def isSafeQuery_src_try_def upperQuery_of_def dangerousKeywords_def
        startsWith_def)

theorem group_by_category_in_src_executeQuery_witness:
  "isSafeQuery_src (JStr stmt_group)
   \<and> str_includes (upperQuery_of stmt_group) ''FROM ITEMS''
   \<and> str_includes (upperQuery_of stmt_group) ''GROUP BY''
   \<and> str_includes (upperQuery_of stmt_group) ''CATEGORY''
   \<and> resp_error (respond store0 categories_query) = None
   \<and> resp_data (respond store0 categories_query) = Some rows0
   \<and> set (category_keys text_of rows0) \<inter> set Object_prototype_names = {}
   \<and> (\<exists>groups.
           fst (executeQuery_src text_of store0 (JStr stmt_group) []) =
             \<lparr>success = True,
              data = Some (map (\<lambda>(category, n).
                                  [(''category'', JStr category), (''count'', JNum (of_nat n))])
                               groups),
              count = Some (length groups), error = None, query = JStr stmt_group, params = []\<rparr>
           \<and> distinct (map fst groups)
           \<and> set (map fst groups) = {''books'', ''toys''}
           \<and> sorted_wrt (\<lambda>a b. snd b \<le> snd a) groups)
   \<and> applyGroupBy [From ''items'', Select ''category, COUNT(*)'' None] stmt_group =
       [From ''items'', Select ''category, COUNT(*)'' None]
   \<and> from_target (cleanSQL_of stmt_group)
   \<and> str_includes (toUpperCase (cleanSQL_of stmt_group)) ''COUNT(*)''
   \<and> str_includes (toUpperCase (cleanSQL_of stmt_group)) ''GROUP BY''
   \<and> fst (parseAndExecuteSQL stringify0 store0 stmt_group) =
       Inr \<lparr>p_data = Some rows0, p_count = length rows0\<rparr>"
proof -
  have a: "isSafeQuery_src (JStr stmt_group)" by (rule group_safe_src)
  have b: "str_includes (upperQuery_of stmt_group) ''FROM ITEMS''"
    "str_includes (upperQuery_of stmt_group) ''GROUP BY''"
    "str_includes (upperQuery_of stmt_group) ''CATEGORY''"
    by (simp_all add: group_upper startsWith_def)
  have c: "resp_error (respond store0 categories_query) = None"
    "resp_data (respond store0 categories_query) = Some rows0"
    by (simp_all add: store0_def)
  have k: "category_keys text_of rows0 = [''books'', ''books'', ''toys'']"
    by (simp add: category_keys_def rows0_def get_prop_def)
  have d: "set (category_keys text_of rows0) \<inter> set Object_prototype_names = {}"
    by (simp add: k Object_prototype_names_def)
  have e: "from_target (cleanSQL_of stmt_group)"
    "str_includes (toUpperCase (cleanSQL_of stmt_group)) ''COUNT(*)''"
    "str_includes (toUpperCase (cleanSQL_of stmt_group)) ''GROUP BY''"
    by (simp_all add: group_clean from_match_iff group_from group_includes)
  have f: "respond store0 q = \<lparr>resp_data = Some rows0, resp_error = None, resp_count = Some 3\<rparr>"
    for q by (simp add: store0_def)
  from group_by_category_in_src_executeQuery[of stmt_group store0 rows0 text_of "[]"
      "[From ''items'', Select ''category, COUNT(*)'' None]" stmt_group stringify0] a b c d e
  show ?thesis by (simp add: k f) blast
qed

lemma group_safe: "isSafeQuery (JStr stmt_group)"
  using group_upper
  by (simp add: isSafeQuery_def isSafeQuery_try_def upperQuery_of_def startsWith_def)
     (simp add: stmt_group_def dangerousPattern_def dangerousKeywords_def char_defs re_defs str_defs)

text \<open>
  C8 as stated fails in the backend translator: \<^verbatim>\<open>applyGroupBy\<close> returns the query
  unchanged and nothing groups the rows afterwards, so
  \<^verbatim>\<open>SELECT category, COUNT(*) FROM items GROUP BY category\<close> gets the rows of the
  store back, equal rows included and without counts.
\<close>

theorem group_by_not_applied_counterexample:
  "str_includes (toUpperCase stmt_group) ''GROUP BY CATEGORY''
   \<and> fst (executeDynamicQuery stringify0 store0 (JStr stmt_group)) =
        \<lparr>success = True,
         data = Some [[(''category'', JStr ''books'')], [(''category'', JStr ''books'')],
                      [(''category'', JStr ''toys'')]],
         count = Some 3, error = None, query = JStr stmt_group\<rparr>"
proof -
  have "startsWith (trim (toUpperCase stmt_group)) ''SELECT''"
    by (simp add: stmt_group_def str_defs isSpace_def)
  then have "fst (executeDynamicQuery stringify0 store0 (JStr stmt_group)) =
        \<lparr>success = True, data = Some rows0, count = Some 3, error = None, query = JStr stmt_group\<rparr>"
    using group_safe
    by (simp add: executeDynamicQuery_def executeDynamicQuery_try_def group_parsed Let_def rows0_def)
  moreover have "str_includes (toUpperCase stmt_group) ''GROUP BY CATEGORY''"
    by (simp add: stmt_group_def str_defs)
  ultimately show ?thesis by (simp add: rows0_def)
qed

subsection \<open>Failures\<close>



















end
